theory Spec2Isabelle
  imports Complex_Main "HOL-Library.Option_ord" "HOL-Library.Multiset"
begin

section \<open>Data model of the agent orchestrator\<close>

text \<open>
  The orchestrator is the class \<open>AgentOrchestrator\<close> of
  \<open>src/core/orchestrator\<close> (second document of \<open>extension/src/index.ts\<close>).
  The declarations it imports from \<open>../types\<close> are not among the sources; the
  types below are read off the way the orchestrator uses them.
\<close>

text \<open>
  Modelled from the spec: the type \<open>AgentType\<close> of \<open>../types\<close> is missing. The
  fifteen kinds are the string literals that \<open>inferAgentType\<close> returns and that the
  agent factory instantiates.
\<close>

datatype AgentType =
    Frontend | Backend | Database | Api | Devops | Qa
  | CodeReview | SecurityReview | TestGen | Perf
  | Docs | Refactor | Migration
  | Architect | Decomposition

text \<open>
  Modelled from the spec: the field \<open>Task.type\<close> is either an agent kind or the
  generic kind \<open>'general'\<close> that \<open>selectAgent\<close> tests for.
\<close>

datatype TaskType = General | Kind AgentType

text \<open>
  Modelled from the spec: the priority tier of a task is one of critical, high,
  medium, low (the keys of \<open>priorityMap\<close> in \<open>calculatePriority\<close>).
\<close>

datatype TaskPriority = Critical | High | Medium | Low

text \<open>
  Modelled from the spec: \<open>RARVPhase\<close> has the five members that index
  \<open>phaseProgress\<close> and \<open>phaseTimings\<close> in the orchestrator.
\<close>

datatype RARVPhase = Idle | Reason | Act | Reflect | Verify

text \<open>
  Modelled from the spec: the declaration of \<open>Task\<close> in \<open>../types\<close> is missing. The
  record has the fields the orchestrator reads: \<open>id\<close>, \<open>description\<close>, \<open>type\<close>,
  \<open>priority\<close>, \<open>confidence\<close> and \<open>context.files\<close>. Strings are lists of characters
  with codes below 256; the confidence is a real number.
\<close>

record Task =
  task_id :: string
  description :: string
  task_type :: TaskType
  task_priority :: TaskPriority
  confidence :: real
  context_files :: "string list"

section \<open>Priority score\<close>

text \<open>\<open>priorityMap\<close>, the lookup table local to \<open>calculatePriority\<close>.\<close>

fun priorityMap :: "TaskPriority \<Rightarrow> int option" where
  "priorityMap Critical = Some 100"
| "priorityMap High = Some 75"
| "priorityMap Medium = Some 50"
| "priorityMap Low = Some 25"

text \<open>\<open>v || 50\<close> on a table lookup: a missing or zero entry gives the default.\<close>

definition orDefault :: "int option \<Rightarrow> int \<Rightarrow> int" where
  "orDefault v d = (case v of None \<Rightarrow> d | Some n \<Rightarrow> if n = 0 then d else n)"

definition calculatePriority :: "Task \<Rightarrow> int" where
  "calculatePriority t =
     (let priority = 0;
          priority = priority + orDefault (priorityMap (task_priority t)) 50;
          priority = (if confidence t \<ge> 0.9 then priority + 20
                      else if confidence t \<ge> 0.6 then priority + 10
                      else priority);
          priority = (if length (context_files t) > 5 then priority - 10 else priority)
      in priority)"

text \<open>The three summands as the specification names them.\<close>

fun tierBase :: "TaskPriority \<Rightarrow> int" where
  "tierBase Critical = 100"
| "tierBase High = 75"
| "tierBase Medium = 50"
| "tierBase Low = 25"

definition confidenceBonus :: "real \<Rightarrow> int" where
  "confidenceBonus c = (if c \<ge> 0.9 then 20 else if c \<ge> 0.6 then 10 else 0)"

definition complexityPenalty :: "string list \<Rightarrow> int" where
  "complexityPenalty fs = (if length fs > 5 then 10 else 0)"

section \<open>Agent selection\<close>

text \<open>
  \<open>String.prototype.toLowerCase\<close> on code units below 256: the letters A to Z and the
  Latin-1 capitals U+00C0 to U+00DE (without the multiplication sign U+00D7) move up
  by 32, every other character stays.
\<close>

definition lowerChar :: "char \<Rightarrow> char" where
  "lowerChar c =
     (let n = (of_char c :: nat)
      in if (65 \<le> n \<and> n \<le> 90) \<or> (192 \<le> n \<and> n \<le> 222 \<and> n \<noteq> 215)
         then char_of (n + 32) else c)"

definition toLowerCase :: "string \<Rightarrow> string" where
  "toLowerCase s = map lowerChar s"

fun startsWith :: "string \<Rightarrow> string \<Rightarrow> bool" where
  "startsWith [] s = True"
| "startsWith (p # ps) [] = False"
| "startsWith (p # ps) (c # cs) = (p = c \<and> startsWith ps cs)"

text \<open>\<open>occursIn p s\<close>: the literal \<open>p\<close> occurs somewhere in \<open>s\<close>.\<close>

fun occursIn :: "string \<Rightarrow> string \<Rightarrow> bool" where
  "occursIn p [] = (p = [])"
| "occursIn p (c # cs) = (startsWith p (c # cs) \<or> occursIn p cs)"

text \<open>
  \<open>s.match(/a|b|c/)\<close> for a pattern that is an alternation of literals: the match is
  non-null exactly when one of the alternatives occurs in \<open>s\<close>.
\<close>

definition matchAny :: "string list \<Rightarrow> string \<Rightarrow> bool" where
  "matchAny alts s = list_ex (\<lambda>p. occursIn p s) alts"

definition inferAgentType :: "string \<Rightarrow> AgentType" where
  "inferAgentType d =
     (let lower = toLowerCase d in
      if matchAny [''react'', ''vue'', ''angular'', ''css'', ''html'', ''component'',
                   ''ui'', ''frontend'', ''style''] lower then Frontend
      else if matchAny [''api'', ''rest'', ''graphql'', ''endpoint'', ''route'',
                        ''controller''] lower then Api
      else if matchAny [''database'', ''sql'', ''schema'', ''migration'', ''query'',
                        ''table''] lower then Database
      else if matchAny [''docker'', ''kubernetes'', ''k8s'', ''ci'', ''cd'', ''deploy'',
                        ''pipeline'', ''infra''] lower then Devops
      else if matchAny [''test'', ''spec'', ''e2e'', ''integration''] lower then Qa
      else if matchAny [''node'', ''python'', ''go'', ''java'', ''server'', ''backend'',
                        ''service''] lower then Backend
      else if matchAny [''review'', ''code quality'', ''lint''] lower then CodeReview
      else if matchAny [''security'', ''vulnerability'', ''owasp'', ''secret''] lower
        then SecurityReview
      else if matchAny [''performance'', ''optimize'', ''latency''] lower then Perf
      else if matchAny [''generate test'', ''unit test'', ''test coverage''] lower
        then TestGen
      else if matchAny [''document'', ''readme'', ''api doc''] lower then Docs
      else if matchAny [''refactor'', ''clean'', ''modernize''] lower then Refactor
      else if matchAny [''migrate'', ''upgrade'', ''version''] lower then Migration
      else if matchAny [''architect'', ''design'', ''system''] lower then Architect
      else if matchAny [''break down'', ''decompose'', ''split''] lower then Decomposition
      else Backend)"

definition selectAgent :: "Task \<Rightarrow> AgentType" where
  "selectAgent t =
     (case task_type t of
        Kind k \<Rightarrow> k
      | General \<Rightarrow> inferAgentType (description t))"

text \<open>
  The rule list as the specification describes it: keyword patterns with the kind each
  selects, grouped by category and read top to bottom; the first rule that matches wins.
\<close>

definition engineeringRules :: "(string list \<times> AgentType) list" where
  "engineeringRules =
     [([''react'', ''vue'', ''angular'', ''css'', ''html'', ''component'', ''ui'',
        ''frontend'', ''style''], Frontend),
      ([''api'', ''rest'', ''graphql'', ''endpoint'', ''route'', ''controller''], Api),
      ([''database'', ''sql'', ''schema'', ''migration'', ''query'', ''table''], Database),
      ([''docker'', ''kubernetes'', ''k8s'', ''ci'', ''cd'', ''deploy'', ''pipeline'',
        ''infra''], Devops),
      ([''test'', ''spec'', ''e2e'', ''integration''], Qa),
      ([''node'', ''python'', ''go'', ''java'', ''server'', ''backend'', ''service''],
       Backend)]"

definition qualityRules :: "(string list \<times> AgentType) list" where
  "qualityRules =
     [([''review'', ''code quality'', ''lint''], CodeReview),
      ([''security'', ''vulnerability'', ''owasp'', ''secret''], SecurityReview),
      ([''performance'', ''optimize'', ''latency''], Perf),
      ([''generate test'', ''unit test'', ''test coverage''], TestGen)]"

definition supportRules :: "(string list \<times> AgentType) list" where
  "supportRules =
     [([''document'', ''readme'', ''api doc''], Docs),
      ([''refactor'', ''clean'', ''modernize''], Refactor),
      ([''migrate'', ''upgrade'', ''version''], Migration)]"

definition planningRules :: "(string list \<times> AgentType) list" where
  "planningRules =
     [([''architect'', ''design'', ''system''], Architect),
      ([''break down'', ''decompose'', ''split''], Decomposition)]"

definition selectionRules :: "(string list \<times> AgentType) list" where
  "selectionRules = engineeringRules @ qualityRules @ supportRules @ planningRules"

definition firstMatchingKind :: "(string list \<times> AgentType) list \<Rightarrow> string \<Rightarrow> AgentType" where
  "firstMatchingKind rules s =
     (case find (\<lambda>r. matchAny (fst r) s) rules of
        Some r \<Rightarrow> snd r
      | None \<Rightarrow> Backend)"

section \<open>Queue items, slots, results and events\<close>

text \<open>
  A priority score is a JavaScript number. The scores the orchestrator computes are
  integers, with one exception: the age boost divides by the configured threshold, and
  with a threshold of zero the quotient, and from then on the score, is \<open>Infinity\<close>.
\<close>

datatype Score = Finite int | Infinity

fun addScore :: "Score \<Rightarrow> int \<Rightarrow> Score" where
  "addScore (Finite p) k = Finite (p + k)"
| "addScore Infinity k = Infinity"


text \<open>
  Modelled from the spec: the declaration of \<open>TaskQueueItem\<close> in \<open>../types\<close> is
  missing. The fields are those of the object literal in \<open>dispatch\<close> and the two that
  \<open>handleTaskError\<close> adds, \<open>lastAttemptAt\<close> and \<open>error\<close>, absent until the first
  failed attempt. Dates are milliseconds since the epoch.
\<close>

record TaskQueueItem =
  task :: Task
  priority :: Score
  addedAt :: int
  attempts :: nat
  lastAttemptAt :: "int option"
  error :: "string option"

text \<open>
  \<open>ActiveAgentInfo\<close> without its \<open>promise\<close> field: the promise chains are kept
  in the state component \<open>executions\<close> below.
\<close>

record ActiveAgentInfo =
  executionId :: string
  agentType :: AgentType
  slotTaskId :: string
  startedAt :: int
  phase :: RARVPhase

text \<open>
  Modelled from the spec: the declarations of the error entry, the metrics and
  \<open>TaskResult\<close> in \<open>../types\<close> are missing. The fields are those of the object
  literal \<open>failureResult\<close> in \<open>handleTaskError\<close>; the element types of \<open>artifacts\<close>
  and \<open>learnings\<close> are not used by the orchestrator and are kept as strings.
\<close>

record TaskError =
  code :: string
  message :: string
  errorPhase :: RARVPhase
  recoverable :: bool

record PhaseTimings =
  idleTime :: int
  reasonTime :: int
  actTime :: int
  reflectTime :: int
  verifyTime :: int

record TaskMetrics =
  totalTokens :: int
  inputTokens :: int
  outputTokens :: int
  cost :: real
  duration :: int
  phaseTimings :: PhaseTimings

record TaskResult =
  taskId :: string
  success :: bool
  resultOutput :: string
  artifacts :: "string list"
  learnings :: "string list"
  metrics :: TaskMetrics
  errors :: "TaskError list"
  retryCount :: nat

text \<open>The values that occur in the payload of an event.\<close>

datatype EventValue =
    VString string
  | VInt int
  | VScore Score
  | VReal real
  | VAgent AgentType
  | VErrors "TaskError list"

text \<open>
  An emitted event, as \<open>emitEvent\<close> is called: its type and its payload object (keys
  in insertion order). The envelope fields \<open>taskId\<close> and \<open>phase\<close> are read from the
  payload; the timestamp is not modelled.
\<close>

record Event =
  eventType :: string
  eventData :: "(string \<times> EventValue) list"

text \<open>
  Modelled from the spec: the declaration of \<open>RARVEvent\<close> in \<open>../types\<close> is missing.
  An event of the phase cycle, with the fields that \<open>handleRARVEvent\<close> reads.
\<close>

record RARVEvent =
  rarvType :: string
  rarvPhase :: RARVPhase
  rarvData :: "(string \<times> EventValue) list"

text \<open>
  One promise chain created by \<open>executeTask\<close>: the execution id and the queue item
  that its callbacks have captured, and whether the execution promise has settled (the
  \<open>then\<close>/\<open>catch\<close> callback has run and \<open>finally\<close> is still to come).
\<close>

record Execution =
  execId :: string
  execItem :: TaskQueueItem
  settled :: bool

record OrchestratorConfig =
  maxConcurrent :: int
  queueSize :: int
  taskTimeout :: int
  retryFailedTasks :: bool
  maxRetries :: int
  priorityBoostOnAge :: bool
  priorityBoostThreshold :: int

definition DEFAULT_CONFIG :: OrchestratorConfig where
  "DEFAULT_CONFIG =
     \<lparr>maxConcurrent = 4, queueSize = 100, taskTimeout = 300000,
      retryFailedTasks = True, maxRetries = 3,
      priorityBoostOnAge = True, priorityBoostThreshold = 60000\<rparr>"

text \<open>
  The fields of the orchestrator that the scheduling code reads and writes. The map
  \<open>activeAgents\<close> is a list of entries in insertion order, as a JavaScript \<open>Map\<close>
  iterates it. \<open>emitted\<close> is the sequence of events that \<open>emitEvent\<close> has handed to
  the subscribers, oldest first. \<open>executions\<close> are the promise chains that have not
  run to their \<open>finally\<close> callback yet. The map \<open>rarvCycles\<close> is written in step with
  \<open>activeAgents\<close> and never read by the scheduling code; it is left out.
\<close>

record OrchestratorState =
  activeAgents :: "(string \<times> ActiveAgentInfo) list"
  taskQueue :: "TaskQueueItem list"
  completedTasks :: "TaskResult list"
  failedTasks :: "TaskResult list"
  isRunning :: bool
  isPaused :: bool
  startTime :: int
  totalCost :: real
  emitted :: "Event list"
  executions :: "Execution list"

definition initialState :: OrchestratorState where
  "initialState =
     \<lparr>activeAgents = [], taskQueue = [], completedTasks = [], failedTasks = [],
      isRunning = False, isPaused = False, startTime = 0, totalCost = 0,
      emitted = [], executions = []\<rparr>"

datatype Error = Error string

section \<open>Maps and strings of the runtime\<close>

text \<open>\<open>Map.prototype.set\<close>: an existing key keeps its place, a new key goes last.\<close>

fun mapSet :: "'k \<Rightarrow> 'v \<Rightarrow> ('k \<times> 'v) list \<Rightarrow> ('k \<times> 'v) list" where
  "mapSet k v [] = [(k, v)]"
| "mapSet k v (e # es) = (if fst e = k then (k, v) # es else e # mapSet k v es)"

definition mapDelete :: "'k \<Rightarrow> ('k \<times> 'v) list \<Rightarrow> ('k \<times> 'v) list" where
  "mapDelete k es = filter (\<lambda>e. fst e \<noteq> k) es"

definition mapGet :: "('k \<times> 'v) list \<Rightarrow> 'k \<Rightarrow> 'v option" where
  "mapGet es k = map_of es k"

text \<open>Decimal rendering of a number in a template string.\<close>

function showDigits :: "int \<Rightarrow> string" where
  "showDigits n =
     (if n < 10 then [char_of (48 + n)]
      else showDigits (n div 10) @ [char_of (48 + n mod 10)])"
  by pat_completeness auto
termination
  by (relation "measure nat") auto

definition showInt :: "int \<Rightarrow> string" where
  "showInt i = (if i < 0 then CHR ''-'' # showDigits (- i) else showDigits i)"

text \<open>\<open>Array.prototype.findIndex\<close>, with \<open>None\<close> for \<open>-1\<close>.\<close>

fun findIndex :: "('a \<Rightarrow> bool) \<Rightarrow> 'a list \<Rightarrow> nat option" where
  "findIndex P [] = None"
| "findIndex P (x # xs) = (if P x then Some 0 else map_option Suc (findIndex P xs))"

text \<open>\<open>xs.splice(i, 1)\<close> for an index inside the array.\<close>

definition spliceOne :: "nat \<Rightarrow> 'a list \<Rightarrow> 'a list" where
  "spliceOne i xs = take i xs @ drop (Suc i) xs"

section \<open>Events\<close>

definition emitEvent :: "string \<Rightarrow> (string \<times> EventValue) list \<Rightarrow> OrchestratorState \<Rightarrow> OrchestratorState" where
  "emitEvent ty d st = st\<lparr>emitted := emitted st @ [\<lparr>eventType = ty, eventData = d\<rparr>]\<rparr>"

section \<open>Priority queue\<close>

text \<open>
  \<open>taskQueue.sort((a, b) => b.priority - a.priority)\<close>. The sort is stable (ECMAScript
  2019), so its result is the stable arrangement by descending score; the difference of
  two infinite scores is \<open>NaN\<close>, which the sort reads as equality. The key below orders
  an infinite score first and finite scores by their negation.
\<close>

definition sortKey :: "TaskQueueItem \<Rightarrow> int option" where
  "sortKey item = (case priority item of Infinity \<Rightarrow> None | Finite p \<Rightarrow> Some (- p))"

definition sortQueue :: "OrchestratorState \<Rightarrow> OrchestratorState" where
  "sortQueue st = st\<lparr>taskQueue := sort_key sortKey (taskQueue st)\<rparr>"

text \<open>
  The body of the loop of \<open>boostAgedTasks\<close> for one item. \<open>Math.floor(age / threshold)\<close>
  is the integer quotient rounded down, also for a negative divisor; for the threshold
  zero and a positive age it is \<open>Infinity\<close>.
\<close>

definition boostItem :: "OrchestratorConfig \<Rightarrow> int \<Rightarrow> TaskQueueItem \<Rightarrow> TaskQueueItem" where
  "boostItem cfg now item =
     (let age = now - addedAt item in
      if age > priorityBoostThreshold cfg then
        (if priorityBoostThreshold cfg = 0 then item\<lparr>priority := Infinity\<rparr>
         else let boostMultiplier = age div priorityBoostThreshold cfg
              in item\<lparr>priority := addScore (priority item) (boostMultiplier * 5)\<rparr>)
      else item)"

definition boostAgedTasks :: "OrchestratorConfig \<Rightarrow> int \<Rightarrow> OrchestratorState \<Rightarrow> OrchestratorState" where
  "boostAgedTasks cfg now st =
     sortQueue (st\<lparr>taskQueue := map (boostItem cfg now) (taskQueue st)\<rparr>)"

section \<open>Admission and execution\<close>

text \<open>The template string \<open>exec_${task.id}_${Date.now()}\<close>.\<close>

definition executionIdFor :: "Task \<Rightarrow> int \<Rightarrow> string" where
  "executionIdFor t now = ''exec_'' @ task_id t @ ''_'' @ showInt now"

text \<open>
  \<open>executeTask\<close> has no \<open>await\<close>: it runs to its end inside the call. It registers the
  slot under the execution id and leaves the promise chain behind.
\<close>

definition executeTask :: "int \<Rightarrow> TaskQueueItem \<Rightarrow> OrchestratorState \<Rightarrow> OrchestratorState" where
  "executeTask now queueItem st =
     (let t = task queueItem;
          agent = selectAgent t;
          eid = executionIdFor t now;
          activeInfo = \<lparr>executionId = eid, agentType = agent, slotTaskId = task_id t,
                        startedAt = now, phase = Reason\<rparr>;
          st1 = st\<lparr>executions := executions st @
                   [\<lparr>execId = eid, execItem = queueItem, settled = False\<rparr>]\<rparr>;
          st2 = st1\<lparr>activeAgents := mapSet eid activeInfo (activeAgents st1)\<rparr>
      in emitEvent ''agent-started''
           [(''executionId'', VString eid), (''agentType'', VAgent agent),
            (''taskId'', VString (task_id t))] st2)"

text \<open>The condition of the \<open>while\<close> loop of \<open>processQueue\<close>.\<close>

definition canAdmit :: "OrchestratorConfig \<Rightarrow> OrchestratorState \<Rightarrow> bool" where
  "canAdmit cfg st =
     (int (length (activeAgents st)) < maxConcurrent cfg \<and> length (taskQueue st) > 0)"

text \<open>The body of the loop: \<open>shift\<close> the head of the queue and execute it.\<close>

definition admitNext :: "int \<Rightarrow> OrchestratorState \<Rightarrow> OrchestratorState" where
  "admitNext now st =
     (case taskQueue st of
        [] \<Rightarrow> st
      | queueItem # rest \<Rightarrow> executeTask now queueItem (st\<lparr>taskQueue := rest\<rparr>))"

function admitLoop :: "OrchestratorConfig \<Rightarrow> int \<Rightarrow> OrchestratorState \<Rightarrow> OrchestratorState" where
  "admitLoop cfg now st =
     (if canAdmit cfg st then admitLoop cfg now (admitNext now st) else st)"
  by pat_completeness auto
termination
  by (relation "measure (\<lambda>(cfg, now, st). length (taskQueue st))")
     (auto simp: canAdmit_def admitNext_def executeTask_def emitEvent_def Let_def
           split: list.splits)

definition processQueue :: "OrchestratorConfig \<Rightarrow> int \<Rightarrow> OrchestratorState \<Rightarrow> OrchestratorState" where
  "processQueue cfg now st =
     (if \<not> isRunning st \<or> isPaused st then st
      else admitLoop cfg now
             (if priorityBoostOnAge cfg then boostAgedTasks cfg now st else st))"


section \<open>Settlement of an execution\<close>

text \<open>
  How the promise of \<open>runExecution\<close> settles is decided outside the orchestrator: the
  phase cycle resolves with a result, the phase cycle rejects with an error, or the
  timer fires first.
\<close>

datatype Outcome = Resolved TaskResult | Rejected string | TimedOut

text \<open>
  \<open>runExecution\<close>: the race of the phase cycle against the timer. The value is the
  settlement of the returned promise: \<open>Inr\<close> a result, \<open>Inl\<close> the message of the
  error it rejects with.
\<close>

definition runExecution :: "OrchestratorConfig \<Rightarrow> Outcome \<Rightarrow> string + TaskResult" where
  "runExecution cfg outcome =
     (case outcome of
        Resolved result \<Rightarrow> Inr result
      | Rejected msg \<Rightarrow> Inl msg
      | TimedOut \<Rightarrow> Inl (''Task timeout after '' @ showInt (taskTimeout cfg) @ ''ms''))"

text \<open>The message of the error that \<open>runExecution\<close> rejects with when the timer fires.\<close>

definition timeoutMessage :: "OrchestratorConfig \<Rightarrow> string" where
  "timeoutMessage cfg = ''Task timeout after '' @ showInt (taskTimeout cfg) @ ''ms''"

definition handleTaskCompletion :: "string \<Rightarrow> TaskResult \<Rightarrow> OrchestratorState \<Rightarrow> OrchestratorState" where
  "handleTaskCompletion eid result st =
     (if success result then
        emitEvent ''task-completed''
          [(''executionId'', VString eid), (''taskId'', VString (taskId result)),
           (''cost'', VReal (cost (metrics result)))]
          (st\<lparr>completedTasks := completedTasks st @ [result],
              totalCost := totalCost st + cost (metrics result)\<rparr>)
      else
        emitEvent ''task-failed''
          [(''executionId'', VString eid), (''taskId'', VString (taskId result)),
           (''errors'', VErrors (errors result))]
          (st\<lparr>failedTasks := failedTasks st @ [result]\<rparr>))"

text \<open>The queue item after the three assignments that open \<open>handleTaskError\<close>.\<close>

definition recordFailure :: "int \<Rightarrow> string \<Rightarrow> TaskQueueItem \<Rightarrow> TaskQueueItem" where
  "recordFailure now msg queueItem =
     queueItem\<lparr>attempts := Suc (attempts queueItem), lastAttemptAt := Some now,
               error := Some msg\<rparr>"

text \<open>The object literal \<open>failureResult\<close> of \<open>handleTaskError\<close>.\<close>

definition failureResult :: "int \<Rightarrow> string \<Rightarrow> TaskQueueItem \<Rightarrow> TaskResult" where
  "failureResult now msg queueItem =
     \<lparr>taskId = task_id (task queueItem),
      success = False,
      resultOutput = [],
      artifacts = [],
      learnings = [],
      metrics = \<lparr>totalTokens = 0, inputTokens = 0, outputTokens = 0, cost = 0,
                 duration = now - addedAt queueItem,
                 phaseTimings = \<lparr>idleTime = 0, reasonTime = 0, actTime = 0,
                                 reflectTime = 0, verifyTime = 0\<rparr>\<rparr>,
      errors = [\<lparr>code = ''EXECUTION_ERROR'', message = msg, errorPhase = Act,
                 recoverable = False\<rparr>],
      retryCount = attempts queueItem\<rparr>"

definition handleTaskError :: "OrchestratorConfig \<Rightarrow> int \<Rightarrow> string \<Rightarrow> TaskQueueItem \<Rightarrow> string \<Rightarrow> OrchestratorState \<Rightarrow> OrchestratorState" where
  "handleTaskError cfg now eid queueItem0 msg st =
     (let queueItem = recordFailure now msg queueItem0 in
      if retryFailedTasks cfg \<and> int (attempts queueItem) < maxRetries cfg then
        emitEvent ''task-retry''
          [(''executionId'', VString eid), (''taskId'', VString (task_id (task queueItem))),
           (''attempt'', VInt (int (attempts queueItem))), (''error'', VString msg)]
          (sortQueue (st\<lparr>taskQueue := taskQueue st @ [queueItem]\<rparr>))
      else
        emitEvent ''task-failed''
          [(''executionId'', VString eid), (''taskId'', VString (task_id (task queueItem))),
           (''error'', VString msg), (''attempts'', VInt (int (attempts queueItem)))]
          (st\<lparr>failedTasks := failedTasks st @ [failureResult now msg queueItem]\<rparr>))"

text \<open>
  The \<open>then\<close> and \<open>catch\<close> callbacks that \<open>executeTask\<close> hangs on the execution
  promise, run for the chain at position \<open>k\<close> of \<open>executions\<close> when its promise
  settles. A promise settles once: the step does nothing for a position that does not
  exist or has settled before. \<open>handleTaskCompletion\<close> does not throw on a result of
  the declared type, so the \<open>catch\<close> callback runs for a rejection only.
\<close>

definition onSettled :: "OrchestratorConfig \<Rightarrow> int \<Rightarrow> nat \<Rightarrow> Outcome \<Rightarrow> OrchestratorState \<Rightarrow> OrchestratorState" where
  "onSettled cfg now k outcome st =
     (if k < length (executions st) \<and> \<not> settled (executions st ! k) then
        let ex = executions st ! k;
            st1 = (case runExecution cfg outcome of
                     Inr result \<Rightarrow> handleTaskCompletion (execId ex) result st
                   | Inl msg \<Rightarrow> handleTaskError cfg now (execId ex) (execItem ex) msg st)
        in st1\<lparr>executions := (executions st1)[k := ex\<lparr>settled := True\<rparr>]\<rparr>
      else st)"

text \<open>
  The \<open>finally\<close> callback of the chain at position \<open>k\<close>: it runs in a later microtask
  than the \<open>then\<close>/\<open>catch\<close> callback, frees the slot and processes the queue.
\<close>

definition onFinally :: "OrchestratorConfig \<Rightarrow> int \<Rightarrow> nat \<Rightarrow> OrchestratorState \<Rightarrow> OrchestratorState" where
  "onFinally cfg now k st =
     (if k < length (executions st) \<and> settled (executions st ! k) then
        let ex = executions st ! k;
            st1 = st\<lparr>executions := spliceOne k (executions st)\<rparr>;
            st2 = st1\<lparr>activeAgents := mapDelete (execId ex) (activeAgents st1)\<rparr>
        in processQueue cfg now st2
      else st)"

definition handleRARVEvent :: "string \<Rightarrow> RARVEvent \<Rightarrow> OrchestratorState \<Rightarrow> OrchestratorState" where
  "handleRARVEvent eid event st =
     (let st1 = (case mapGet (activeAgents st) eid of
                   Some activeInfo \<Rightarrow>
                     if rarvType event = ''phase-started''
                     then st\<lparr>activeAgents :=
                            mapSet eid (activeInfo\<lparr>phase := rarvPhase event\<rparr>) (activeAgents st)\<rparr>
                     else st
                 | None \<Rightarrow> st)
      in emitEvent (rarvType event) (mapSet ''executionId'' (VString eid) (rarvData event)) st1)"

section \<open>Public operations\<close>

definition start :: "OrchestratorConfig \<Rightarrow> int \<Rightarrow> OrchestratorState \<Rightarrow> OrchestratorState" where
  "start cfg now st =
     (if isRunning st then st
      else processQueue cfg now
             (emitEvent ''orchestrator-started'' []
                (st\<lparr>isRunning := True, isPaused := False, startTime := now\<rparr>)))"

text \<open>
  \<open>stop\<close> up to its \<open>await\<close>, and the rest of \<open>stop\<close> after the awaited promises
  have settled. When the second part runs is not constrained here.
\<close>

definition stop :: "OrchestratorState \<Rightarrow> OrchestratorState" where
  "stop st = st\<lparr>isRunning := False\<rparr>"

definition stopSettled :: "OrchestratorState \<Rightarrow> OrchestratorState" where
  "stopSettled st =
     emitEvent ''orchestrator-stopped''
       [(''completedCount'', VInt (int (length (completedTasks st)))),
        (''failedCount'', VInt (int (length (failedTasks st))))] st"

definition pause :: "OrchestratorState \<Rightarrow> OrchestratorState" where
  "pause st = emitEvent ''orchestrator-paused'' [] (st\<lparr>isPaused := True\<rparr>)"

definition resume :: "OrchestratorConfig \<Rightarrow> int \<Rightarrow> OrchestratorState \<Rightarrow> OrchestratorState" where
  "resume cfg now st =
     processQueue cfg now (emitEvent ''orchestrator-resumed'' [] (st\<lparr>isPaused := False\<rparr>))"

text \<open>
  \<open>dispatch\<close>: \<open>Inl\<close> is the error thrown, before anything is written; \<open>Inr\<close> is the
  returned task id with the state after the call.
\<close>

definition dispatch :: "OrchestratorConfig \<Rightarrow> int \<Rightarrow> Task \<Rightarrow> OrchestratorState \<Rightarrow> Error + (string \<times> OrchestratorState)" where
  "dispatch cfg now t st =
     (if int (length (taskQueue st)) \<ge> queueSize cfg then Inl (Error ''Task queue is full'')
      else
        let p = calculatePriority t;
            queueItem = \<lparr>task = t, priority = Finite p, addedAt = now, attempts = 0,
                         lastAttemptAt = None, error = None\<rparr>;
            st1 = sortQueue (st\<lparr>taskQueue := taskQueue st @ [queueItem]\<rparr>);
            st2 = emitEvent ''task-queued''
                    [(''taskId'', VString (task_id t)), (''priority'', VScore (Finite p))] st1;
            st3 = (if isRunning st2 \<and> \<not> isPaused st2 then processQueue cfg now st2 else st2)
        in Inr (task_id t, st3))"

definition cancelTask :: "string \<Rightarrow> OrchestratorState \<Rightarrow> bool \<times> OrchestratorState" where
  "cancelTask tid st =
     (case findIndex (\<lambda>item. task_id (task item) = tid) (taskQueue st) of
        Some index \<Rightarrow>
          (True, emitEvent ''task-cancelled'' [(''taskId'', VString tid)]
                   (st\<lparr>taskQueue := spliceOne index (taskQueue st)\<rparr>))
      | None \<Rightarrow> (False, st))"

section \<open>Status introspection\<close>

text \<open>
  The \<open>reduce\<close> of \<open>getCurrentPhase\<close>: an object from phase to count, its keys in the
  order in which they were first written.
\<close>

definition countPhase :: "(RARVPhase \<times> nat) list \<Rightarrow> RARVPhase \<Rightarrow> (RARVPhase \<times> nat) list" where
  "countPhase acc ph = mapSet ph ((case mapGet acc ph of None \<Rightarrow> 0 | Some c \<Rightarrow> c) + 1) acc"

definition phaseCounts :: "RARVPhase list \<Rightarrow> (RARVPhase \<times> nat) list" where
  "phaseCounts phases = foldl countPhase [] phases"

text \<open>The phases of the in-flight slots, in the iteration order of the map.\<close>

definition slotPhases :: "OrchestratorState \<Rightarrow> RARVPhase list" where
  "slotPhases st = map (\<lambda>e. phase (snd e)) (activeAgents st)"

text \<open>
  \<open>getCurrentPhase\<close>: the entries are sorted by descending count with the stable sort
  and the first one is taken; reading the first entry of an empty array is a
  \<open>TypeError\<close>.
\<close>

definition getCurrentPhase :: "OrchestratorState \<Rightarrow> Error + RARVPhase" where
  "getCurrentPhase st =
     (if length (activeAgents st) = 0 then Inr Idle
      else case sort_key (\<lambda>e. - int (snd e)) (phaseCounts (slotPhases st)) of
             [] \<Rightarrow> Inl (Error ''TypeError'')
           | e # es \<Rightarrow> Inr (fst e))"

section \<open>Runs of the orchestrator\<close>

text \<open>
  What can happen to an orchestrator: a call of a public method, an event of a phase
  cycle, the settlement of an execution promise, and the \<open>finally\<close> callback of a
  settled chain. Each carries the clock reading of the moment: the synchronous code
  of one operation reads the clock within one millisecond.
\<close>

datatype Op =
    Start int
  | Stop
  | StopSettled
  | Pause
  | Resume int
  | Dispatch Task int
  | CancelTask string
  | PhaseEvent string RARVEvent
  | Settle nat Outcome int
  | Finally nat int

text \<open>What the caller gets back.\<close>

datatype Response = Done | Dispatched string | DispatchFailed Error | Cancelled bool

fun step :: "OrchestratorConfig \<Rightarrow> Op \<Rightarrow> OrchestratorState \<Rightarrow> Response \<times> OrchestratorState" where
  "step cfg (Start now) st = (Done, start cfg now st)"
| "step cfg Stop st = (Done, stop st)"
| "step cfg StopSettled st = (Done, stopSettled st)"
| "step cfg Pause st = (Done, pause st)"
| "step cfg (Resume now) st = (Done, resume cfg now st)"
| "step cfg (Dispatch t now) st =
     (case dispatch cfg now t st of
        Inl e \<Rightarrow> (DispatchFailed e, st)
      | Inr (tid, st') \<Rightarrow> (Dispatched tid, st'))"
| "step cfg (CancelTask tid) st =
     (case cancelTask tid st of (b, st') \<Rightarrow> (Cancelled b, st'))"
| "step cfg (PhaseEvent eid event) st = (Done, handleRARVEvent eid event st)"
| "step cfg (Settle k outcome now) st = (Done, onSettled cfg now k outcome st)"
| "step cfg (Finally k now) st = (Done, onFinally cfg now k st)"

fun run :: "OrchestratorConfig \<Rightarrow> Op list \<Rightarrow> OrchestratorState \<Rightarrow> Response list \<times> OrchestratorState" where
  "run cfg [] st = ([], st)"
| "run cfg (op # ops) st =
     (case step cfg op st of
        (r, st') \<Rightarrow> (case run cfg ops st' of (rs, st'') \<Rightarrow> (r # rs, st'')))"

section \<open>Executions in flight\<close>

text \<open>
  The runs of the phase cycle that are in flight: the promise chains of \<open>executeTask\<close>
  whose execution promise has not settled. Each was admitted by the loop of
  \<open>processQueue\<close> and holds its agent until its promise settles.
\<close>

definition inFlight :: "OrchestratorState \<Rightarrow> Execution list" where
  "inFlight st = filter (\<lambda>e. \<not> settled e) (executions st)"

section \<open>Accounting for dispatched tasks\<close>

text \<open>
  The tasks that wait for an outcome: those in the queue and those whose execution
  promise has not settled.
\<close>

definition pendingTasks :: "OrchestratorState \<Rightarrow> Task list" where
  "pendingTasks st =
     map task (taskQueue st) @
     map (\<lambda>e. task (execItem e)) (filter (\<lambda>e. \<not> settled e) (executions st))"

text \<open>The ids that \<open>dispatch\<close> returned, and the ids that \<open>cancelTask\<close> removed.\<close>

fun dispatchedId :: "Response \<Rightarrow> string list" where
  "dispatchedId (Dispatched tid) = [tid]"
| "dispatchedId r = []"

definition dispatchedIds :: "Response list \<Rightarrow> string list" where
  "dispatchedIds rs = concat (map dispatchedId rs)"

fun cancelledId :: "Op \<Rightarrow> Response \<Rightarrow> string list" where
  "cancelledId (CancelTask tid) (Cancelled True) = [tid]"
| "cancelledId op r = []"

definition cancelledIds :: "Op list \<Rightarrow> Response list \<Rightarrow> string list" where
  "cancelledIds ops rs = concat (map (\<lambda>(op, r). cancelledId op r) (zip ops rs))"

text \<open>
  The contract of the phase cycle that the orchestrator relies on: a result that an
  execution resolves with carries the id of the task that was executed.
\<close>

fun opAttributed :: "Op \<Rightarrow> OrchestratorState \<Rightarrow> bool" where
  "opAttributed (Settle k (Resolved result) now) st =
     (if k < length (executions st) \<and> \<not> settled (executions st ! k)
      then taskId result = task_id (task (execItem (executions st ! k)))
      else True)"
| "opAttributed op st = True"

fun attributed :: "OrchestratorConfig \<Rightarrow> Op list \<Rightarrow> OrchestratorState \<Rightarrow> bool" where
  "attributed cfg [] st = True"
| "attributed cfg (op # ops) st =
     (opAttributed op st \<and> attributed cfg ops (snd (step cfg op st)))"

text \<open>
  The ledger of a state: the ids of the tasks that wait for an outcome together with
  the ids of the recorded results, and how many they are.
\<close>

definition accountedIds :: "OrchestratorState \<Rightarrow> string multiset" where
  "accountedIds st =
     mset (map task_id (pendingTasks st)) + mset (map taskId (completedTasks st)) +
     mset (map taskId (failedTasks st))"

definition accountedCount :: "OrchestratorState \<Rightarrow> nat" where
  "accountedCount st =
     length (pendingTasks st) + length (completedTasks st) + length (failedTasks st)"

section \<open>A single task whose attempts fail\<close>

text \<open>
  The operations of one attempt after another of the only task in flight: the
  execution promise settles with the given outcome at the given time, then its
  \<open>finally\<close> callback runs.
\<close>

definition attemptOps :: "(Outcome \<times> int) list \<Rightarrow> Op list" where
  "attemptOps xs = concat (map (\<lambda>(outcome, now). [Settle 0 outcome now, Finally 0 now]) xs)"

text \<open>A fresh orchestrator is started, one task is dispatched, and its attempts settle.\<close>

definition singleTaskOps :: "Task \<Rightarrow> int \<Rightarrow> (Outcome \<times> int) list \<Rightarrow> Op list" where
  "singleTaskOps t t0 xs = Start t0 # Dispatch t t0 # attemptOps xs"

text \<open>An outcome that rejects the execution promise: the timer or a thrown error.\<close>

fun isRejection :: "Outcome \<Rightarrow> bool" where
  "isRejection (Resolved result) = False"
| "isRejection (Rejected msg) = True"
| "isRejection TimedOut = True"

text \<open>
  How many attempts \<open>handleTaskError\<close> grants a task: \<open>maxRetries\<close> when retrying is
  enabled and \<open>maxRetries\<close> is at least one, a single attempt otherwise.
\<close>

definition attemptsAllowed :: "OrchestratorConfig \<Rightarrow> nat" where
  "attemptsAllowed cfg =
     (if retryFailedTasks cfg \<and> 1 \<le> maxRetries cfg then nat (maxRetries cfg) else 1)"

definition countEvents :: "string \<Rightarrow> OrchestratorState \<Rightarrow> nat" where
  "countEvents ty st = length (filter (\<lambda>e. eventType e = ty) (emitted st))"

text \<open>
  The state between two attempts of the only task: the orchestrator runs, the queue is
  empty, no result is recorded, and attempt number \<open>j + 1\<close> of the task is the only
  execution, registered under its id.
\<close>

definition attemptInFlight :: "Task \<Rightarrow> nat \<Rightarrow> OrchestratorState \<Rightarrow> bool" where
  "attemptInFlight t j st =
     (isRunning st \<and> \<not> isPaused st \<and> taskQueue st = [] \<and>
      completedTasks st = [] \<and> failedTasks st = [] \<and>
      length (executions st) = 1 \<and> \<not> settled (executions st ! 0) \<and>
      task (execItem (executions st ! 0)) = t \<and>
      attempts (execItem (executions st ! 0)) = j \<and>
      map fst (activeAgents st) = [execId (executions st ! 0)] \<and>
      countEvents ''task-retry'' st = j \<and>
      countEvents ''agent-started'' st = Suc j \<and>
      countEvents ''task-failed'' st = 0)"

section \<open>Concrete inputs\<close>

text \<open>Three tasks, two results and some runs, used to evaluate the model.\<close>

definition demoTaskA :: Task where
  "demoTaskA = \<lparr>task_id = ''a'', description = ''Add a REST endpoint'', task_type = General,
                 task_priority = Medium, confidence = 0.8, context_files = []\<rparr>"

definition demoTaskB :: Task where
  "demoTaskB = \<lparr>task_id = ''b'', description = ''Tidy up'', task_type = Kind Refactor,
                 task_priority = Medium, confidence = 0.8, context_files = []\<rparr>"

definition demoTaskC :: Task where
  "demoTaskC = \<lparr>task_id = ''c'', description = ''Outage'', task_type = Kind Devops,
                 task_priority = Critical, confidence = 0.95, context_files = []\<rparr>"

definition zeroMetrics :: TaskMetrics where
  "zeroMetrics =
     \<lparr>totalTokens = 0, inputTokens = 0, outputTokens = 0, cost = 0, duration = 0,
      phaseTimings = \<lparr>idleTime = 0, reasonTime = 0, actTime = 0, reflectTime = 0,
                      verifyTime = 0\<rparr>\<rparr>"

text \<open>A successful result for task a and an unsuccessful result for task c.\<close>

definition demoSuccessA :: TaskResult where
  "demoSuccessA =
     \<lparr>taskId = ''a'', success = True, resultOutput = ''done'', artifacts = [],
      learnings = [], metrics = zeroMetrics, errors = [], retryCount = 0\<rparr>"

definition demoFailureC :: TaskResult where
  "demoFailureC =
     \<lparr>taskId = ''c'', success = False, resultOutput = [], artifacts = [], learnings = [],
      metrics = zeroMetrics,
      errors = [\<lparr>code = ''VERIFY_FAILED'', message = ''checks failed'', errorPhase = Verify,
                 recoverable = True\<rparr>],
      retryCount = 0\<rparr>"

text \<open>
  Task b is dispatched and cancelled before the start; tasks a and c are dispatched to
  the running orchestrator, a succeeds and c resolves with a failure.
\<close>

definition demoOps :: "Op list" where
  "demoOps =
     [Dispatch demoTaskB 0, CancelTask ''b'', Start 1, Dispatch demoTaskA 2,
      Dispatch demoTaskC 3, Settle 0 (Resolved demoSuccessA) 5,
      Settle 1 (Resolved demoFailureC) 6, Finally 0 7, Finally 0 8]"

text \<open>A configuration with a single slot, and a run that fills it and queues a task.\<close>

definition singleSlotConfig :: OrchestratorConfig where
  "singleSlotConfig = DEFAULT_CONFIG\<lparr>maxConcurrent := 1\<rparr>"

definition singleSlotOps :: "Op list" where
  "singleSlotOps = [Start 0, Dispatch demoTaskA 1, Dispatch demoTaskB 2]"

text \<open>
  A configuration with two slots. Task a is admitted and rejected within the millisecond
  of the start; before the \<open>finally\<close> callback of that attempt runs, tasks b and c
  are dispatched in the same millisecond; then the callback runs.
\<close>

definition twoSlotConfig :: OrchestratorConfig where
  "twoSlotConfig = DEFAULT_CONFIG\<lparr>maxConcurrent := 2\<rparr>"

definition collisionOps :: "Op list" where
  "collisionOps =
     [Start 0, Dispatch demoTaskA 0, Settle 0 (Rejected ''boom'') 0, Dispatch demoTaskB 0,
      Dispatch demoTaskC 0, Finally 0 1]"

text \<open>A queue of capacity one, and a configuration that never retries.\<close>

definition tinyQueueConfig :: OrchestratorConfig where
  "tinyQueueConfig = DEFAULT_CONFIG\<lparr>queueSize := 1\<rparr>"

definition noRetryConfig :: OrchestratorConfig where
  "noRetryConfig = DEFAULT_CONFIG\<lparr>retryFailedTasks := False\<rparr>"

text \<open>Task c is dispatched to a running orchestrator and admitted at once.\<close>

definition admitOps :: "Op list" where
  "admitOps = [Start 0, Dispatch demoTaskC 1]"

text \<open>The same, and the first attempt resolves with an unsuccessful result.\<close>

definition failedResultOps :: "Op list" where
  "failedResultOps = [Start 0, Dispatch demoTaskC 1, Settle 0 (Resolved demoFailureC) 2]"

text \<open>
  Two tasks are admitted; the phase cycle of the first, or of the second, reports the
  start of its verify phase.
\<close>

definition verifyStarted :: RARVEvent where
  "verifyStarted = \<lparr>rarvType = ''phase-started'', rarvPhase = Verify, rarvData = []\<rparr>"

definition verifyFirstOps :: "Op list" where
  "verifyFirstOps =
     [Start 0, Dispatch demoTaskA 1, Dispatch demoTaskB 2, PhaseEvent ''exec_a_1'' verifyStarted]"

definition verifySecondOps :: "Op list" where
  "verifySecondOps =
     [Start 0, Dispatch demoTaskA 1, Dispatch demoTaskB 2, PhaseEvent ''exec_b_2'' verifyStarted]"


text \<open>
  Attempts of task c: three rejections, three timeouts, a single rejection, and a single
  attempt that resolves with an unsuccessful result.
\<close>

definition threeRejections :: "(Outcome \<times> int) list" where
  "threeRejections = [(Rejected ''boom'', 1), (TimedOut, 2), (Rejected ''bang'', 3)]"

definition threeTimeouts :: "int list" where
  "threeTimeouts = [10, 20, 30]"

definition oneRejectionOps :: "Op list" where
  "oneRejectionOps = singleTaskOps demoTaskC 0 [(Rejected ''boom'', 1)]"

definition unsuccessfulOps :: "Op list" where
  "unsuccessfulOps = singleTaskOps demoTaskC 0 [(Resolved demoFailureC, 1)]"

section \<open>Theorems\<close>

section \<open>Priority score and agent selection: theorems\<close>

text \<open>
  C5. For every task, the score that \<open>calculatePriority\<close> computes at dispatch is the
  tier base (critical 100, high 75, medium 50, low 25) plus the confidence bonus (20
  from 0.9 up, 10 from 0.6 up, otherwise 0) minus the complexity penalty (10 when the
  file-context list has more than five entries).
\<close>

theorem calculatePriority_formula:
  "calculatePriority t =
     tierBase (task_priority t) + confidenceBonus (confidence t)
       - complexityPenalty (context_files t)"
  by (cases "task_priority t")
     (simp_all add: calculatePriority_def orDefault_def confidenceBonus_def
        complexityPenalty_def Let_def)

text \<open>
  C10. Agent selection is a function of the task alone: a task with an explicit
  kind other than the generic one gets that kind unchanged; a generic task gets the kind
  of the first rule, in the fixed order engineering, quality, support, planning, one of
  whose keywords occurs in the lower-cased description, and the backend kind when no rule
  matches.
\<close>

theorem selectAgent_rules:
  "(\<forall>k. task_type t = Kind k \<longrightarrow> selectAgent t = k) \<and>
   (task_type t = General \<longrightarrow>
      selectAgent t = firstMatchingKind selectionRules (toLowerCase (description t))) \<and>
   (task_type t = General \<longrightarrow>
      (\<forall>r \<in> set selectionRules. \<not> matchAny (fst r) (toLowerCase (description t))) \<longrightarrow>
      selectAgent t = Backend)"
proof (intro conjI allI impI)
  fix k assume "task_type t = Kind k"
  then show "selectAgent t = k" by (simp add: selectAgent_def)
next
  assume g: "task_type t = General"
  show "selectAgent t = firstMatchingKind selectionRules (toLowerCase (description t))"
    using g
    by (simp add: selectAgent_def inferAgentType_def firstMatchingKind_def
        selectionRules_def engineeringRules_def qualityRules_def supportRules_def
        planningRules_def Let_def)
next
  assume g: "task_type t = General"
    and n: "\<forall>r \<in> set selectionRules. \<not> matchAny (fst r) (toLowerCase (description t))"
  from n show "selectAgent t = Backend"
    using g
    by (simp add: selectAgent_def inferAgentType_def
        selectionRules_def engineeringRules_def qualityRules_def supportRules_def
        planningRules_def Let_def)
qed

theorem selectAgent_rules_witness:
  "selectAgent \<lparr>task_id = ''t1'', description = ''anything'', task_type = Kind Perf,
                 task_priority = Low, confidence = 0.5, context_files = []\<rparr> = Perf \<and>
   selectAgent \<lparr>task_id = ''t2'', description = ''DB Test sQL'', task_type = General,
                 task_priority = Low, confidence = 0.5, context_files = []\<rparr> = Database \<and>
   selectAgent \<lparr>task_id = ''t3'', description = ''Hello'', task_type = General,
                 task_priority = Low, confidence = 0.5, context_files = []\<rparr> = Backend"
proof -
  let ?t1 = "\<lparr>task_id = ''t1'', description = ''anything'', task_type = Kind Perf,
                 task_priority = Low, confidence = 0.5, context_files = []\<rparr>"
  let ?t2 = "\<lparr>task_id = ''t2'', description = ''DB Test sQL'', task_type = General,
                 task_priority = Low, confidence = 0.5, context_files = []\<rparr>"
  let ?t3 = "\<lparr>task_id = ''t3'', description = ''Hello'', task_type = General,
                 task_priority = Low, confidence = 0.5, context_files = []\<rparr>"
  have a: "selectAgent ?t1 = Perf"
    using selectAgent_rules [of ?t1] by simp
  have "firstMatchingKind selectionRules (toLowerCase ''DB Test sQL'') = Database"
    by code_simp
  then have b: "selectAgent ?t2 = Database"
    using selectAgent_rules [of ?t2] by simp
  have "list_all (\<lambda>r. \<not> matchAny (fst r) (toLowerCase ''Hello'')) selectionRules"
    by code_simp
  then have "\<forall>r \<in> set selectionRules. \<not> matchAny (fst r) (toLowerCase (description ?t3))"
    by (simp add: list_all_iff)
  moreover have "task_type ?t3 = General" by simp
  ultimately have c: "selectAgent ?t3 = Backend"
    using selectAgent_rules [of ?t3] by blast
  show ?thesis using a b c by blast
qed

section \<open>The admission loop and the concurrency bound: lemmas\<close>

declare admitLoop.simps [simp del]

lemma emitEvent_fields [simp]:
  "activeAgents (emitEvent ty d st) = activeAgents st"
  "taskQueue (emitEvent ty d st) = taskQueue st"
  "completedTasks (emitEvent ty d st) = completedTasks st"
  "failedTasks (emitEvent ty d st) = failedTasks st"
  "isRunning (emitEvent ty d st) = isRunning st"
  "isPaused (emitEvent ty d st) = isPaused st"
  "executions (emitEvent ty d st) = executions st"
  "emitted (emitEvent ty d st) = emitted st @ [\<lparr>eventType = ty, eventData = d\<rparr>]"
  by (simp_all add: emitEvent_def)

lemma sortQueue_fields [simp]:
  "activeAgents (sortQueue st) = activeAgents st"
  "taskQueue (sortQueue st) = sort_key sortKey (taskQueue st)"
  "completedTasks (sortQueue st) = completedTasks st"
  "failedTasks (sortQueue st) = failedTasks st"
  "isRunning (sortQueue st) = isRunning st"
  "isPaused (sortQueue st) = isPaused st"
  "executions (sortQueue st) = executions st"
  "emitted (sortQueue st) = emitted st"
  by (simp_all add: sortQueue_def)

lemma boostAgedTasks_fields [simp]:
  "activeAgents (boostAgedTasks cfg now st) = activeAgents st"
  "taskQueue (boostAgedTasks cfg now st) = sort_key sortKey (map (boostItem cfg now) (taskQueue st))"
  "completedTasks (boostAgedTasks cfg now st) = completedTasks st"
  "failedTasks (boostAgedTasks cfg now st) = failedTasks st"
  "isRunning (boostAgedTasks cfg now st) = isRunning st"
  "isPaused (boostAgedTasks cfg now st) = isPaused st"
  "executions (boostAgedTasks cfg now st) = executions st"
  "emitted (boostAgedTasks cfg now st) = emitted st"
  by (simp_all add: boostAgedTasks_def)

lemma executeTask_fields [simp]:
  "taskQueue (executeTask now item st) = taskQueue st"
  "completedTasks (executeTask now item st) = completedTasks st"
  "failedTasks (executeTask now item st) = failedTasks st"
  "isRunning (executeTask now item st) = isRunning st"
  "isPaused (executeTask now item st) = isPaused st"
  "executions (executeTask now item st) =
     executions st @ [\<lparr>execId = executionIdFor (task item) now, execItem = item,
                        settled = False\<rparr>]"
  "activeAgents (executeTask now item st) =
     mapSet (executionIdFor (task item) now)
       \<lparr>executionId = executionIdFor (task item) now,
        agentType = selectAgent (task item), slotTaskId = task_id (task item),
        startedAt = now, phase = Reason\<rparr> (activeAgents st)"
  by (simp_all add: executeTask_def Let_def)

lemma admitLoop_rule:
  "P st \<Longrightarrow> (\<And>s. P s \<Longrightarrow> canAdmit cfg s \<Longrightarrow> P (admitNext now s)) \<Longrightarrow> P (admitLoop cfg now st)"
proof (induction cfg now st rule: admitLoop.induct)
  case (1 cfg now st)
  show ?case
  proof (cases "canAdmit cfg st")
    case True
    then have "P (admitNext now st)" using 1 by blast
    then have "P (admitLoop cfg now (admitNext now st))" using 1(1)[OF True] 1(3) by blast
    then show ?thesis using True by (subst admitLoop.simps) simp
  next
    case False
    then show ?thesis using 1(2) by (subst admitLoop.simps) simp
  qed
qed

lemma processQueue_rule:
  assumes "P st"
    and "\<And>s. P s \<Longrightarrow> P (boostAgedTasks cfg now s)"
    and "\<And>s. P s \<Longrightarrow> canAdmit cfg s \<Longrightarrow> P (admitNext now s)"
  shows "P (processQueue cfg now st)"
  unfolding processQueue_def using assms by (auto intro: admitLoop_rule)

lemma length_mapSet_le: "length (mapSet k v es) \<le> Suc (length es)"
  by (induction es) auto

lemma length_mapDelete_le: "length (mapDelete k es) \<le> length es"
  by (simp add: mapDelete_def)

lemma length_mapSet_present: "mapGet es k = Some v \<Longrightarrow> length (mapSet k v' es) = length es"
  by (induction es) (auto simp: mapGet_def split: if_splits)

lemma admitNext_bounded:
  assumes "canAdmit cfg s"
  shows "int (length (activeAgents (admitNext now s))) \<le> maxConcurrent cfg"
proof -
  obtain item rest where q: "taskQueue s = item # rest"
    using assms by (cases "taskQueue s") (auto simp: canAdmit_def)
  have "length (activeAgents (admitNext now s)) \<le> Suc (length (activeAgents s))"
    using q by (simp add: admitNext_def length_mapSet_le)
  then show ?thesis using assms by (simp add: canAdmit_def)
qed

lemma processQueue_bounded:
  "int (length (activeAgents st)) \<le> maxConcurrent cfg \<Longrightarrow>
   int (length (activeAgents (processQueue cfg now st))) \<le> maxConcurrent cfg"
  by (rule processQueue_rule) (simp_all add: admitNext_bounded)

lemma handleTaskCompletion_active [simp]:
  "activeAgents (handleTaskCompletion eid r st) = activeAgents st"
  by (simp add: handleTaskCompletion_def)

lemma handleTaskError_active [simp]:
  "activeAgents (handleTaskError cfg now eid item msg st) = activeAgents st"
  by (simp add: handleTaskError_def Let_def)

lemma onSettled_active [simp]:
  "activeAgents (onSettled cfg now k outcome st) = activeAgents st"
  by (simp add: onSettled_def Let_def split: sum.splits)

lemma handleRARVEvent_length_active [simp]:
  "length (activeAgents (handleRARVEvent eid ev st)) = length (activeAgents st)"
  by (simp add: handleRARVEvent_def Let_def length_mapSet_present split: option.splits)

lemma step_bounded:
  assumes "int (length (activeAgents st)) \<le> maxConcurrent cfg"
  shows "int (length (activeAgents (snd (step cfg op st)))) \<le> maxConcurrent cfg"
proof (cases op)
  case (Start now)
  then show ?thesis using assms by (simp add: start_def processQueue_bounded)
next
  case Stop
  then show ?thesis using assms by (simp add: stop_def)
next
  case StopSettled
  then show ?thesis using assms by (simp add: stopSettled_def)
next
  case Pause
  then show ?thesis using assms by (simp add: pause_def)
next
  case (Resume now)
  then show ?thesis using assms by (simp add: resume_def processQueue_bounded)
next
  case (Dispatch t now)
  then show ?thesis using assms
    by (simp add: dispatch_def Let_def processQueue_bounded)
next
  case (CancelTask tid)
  then show ?thesis using assms by (simp add: cancelTask_def split: option.splits)
next
  case (PhaseEvent eid ev)
  then show ?thesis using assms by simp
next
  case (Settle k outcome now)
  then show ?thesis using assms by simp
next
  case (Finally k now)
  show ?thesis
  proof (cases "k < length (executions st) \<and> settled (executions st ! k)")
    case True
    have "length (mapDelete (execId (executions st ! k)) (activeAgents st)) \<le> length (activeAgents st)"
      by (rule length_mapDelete_le)
    then show ?thesis using Finally True assms
      by (simp add: onFinally_def Let_def processQueue_bounded)
  next
    case False
    then show ?thesis using Finally assms by (auto simp add: onFinally_def)
  qed
qed

lemma snd_run_Cons:
  "snd (run cfg (op # ops) st) = snd (run cfg ops (snd (step cfg op st)))"
  by (simp split: prod.splits)

lemma snd_run_append:
  "snd (run cfg (xs @ ys) st) = snd (run cfg ys (snd (run cfg xs st)))"
proof (induction xs arbitrary: st)
  case Nil
  show ?case by simp
next
  case (Cons x xs)
  show ?case using Cons.IH by (simp only: append_Cons snd_run_Cons)
qed

lemma run_bounded:
  "int (length (activeAgents st)) \<le> maxConcurrent cfg \<Longrightarrow>
   int (length (activeAgents (snd (run cfg ops st)))) \<le> maxConcurrent cfg"
proof (induction ops arbitrary: st)
  case Nil
  then show ?case by simp
next
  case (Cons op ops)
  have "int (length (activeAgents (snd (step cfg op st)))) \<le> maxConcurrent cfg"
    using Cons.prems by (rule step_bounded)
  from Cons.IH[OF this] show ?case by (simp only: snd_run_Cons)
qed

lemma processQueue_at_limit:
  assumes "maxConcurrent cfg \<le> int (length (activeAgents st))"
  shows "executions (processQueue cfg now st) = executions st \<and>
         activeAgents (processQueue cfg now st) = activeAgents st \<and>
         length (taskQueue (processQueue cfg now st)) = length (taskQueue st)"
proof -
  have "\<not> canAdmit cfg s" if "activeAgents s = activeAgents st" for s
    using that assms by (simp add: canAdmit_def)
  then show ?thesis
    by (simp add: processQueue_def admitLoop.simps)
qed

section \<open>The ledger of dispatched tasks: lemmas\<close>

lemma task_boostItem [simp]: "task (boostItem cfg now item) = task item"
  by (simp add: boostItem_def Let_def)

lemma admitNext_pending:
  "canAdmit cfg s \<Longrightarrow> mset (pendingTasks (admitNext now s)) = mset (pendingTasks s)"
  by (cases "taskQueue s") (simp_all add: canAdmit_def admitNext_def pendingTasks_def)

lemma admitNext_results [simp]:
  "completedTasks (admitNext now s) = completedTasks s"
  "failedTasks (admitNext now s) = failedTasks s"
  by (simp_all add: admitNext_def split: list.splits)

lemma boost_pending:
  "mset (pendingTasks (boostAgedTasks cfg now s)) = mset (pendingTasks s)"
proof -
  have "mset (map task (sort_key sortKey (map (boostItem cfg now) (taskQueue s)))) =
        mset (map task (taskQueue s))"
    by (simp add: multiset.map_comp comp_def)
  then show ?thesis by (simp add: pendingTasks_def)
qed

lemma processQueue_pending:
  "mset (pendingTasks (processQueue cfg now st)) = mset (pendingTasks st) \<and>
   completedTasks (processQueue cfg now st) = completedTasks st \<and>
   failedTasks (processQueue cfg now st) = failedTasks st"
  by (rule processQueue_rule) (simp_all add: boost_pending admitNext_pending)

lemma unsettled_after_settle:
  "k < length xs \<Longrightarrow> \<not> settled (xs ! k) \<Longrightarrow>
   mset (map f (filter (\<lambda>e. \<not> settled e) (xs[k := (xs ! k)\<lparr>settled := True\<rparr>]))) + {#f (xs ! k)#} =
   mset (map f (filter (\<lambda>e. \<not> settled e) xs))"
proof (induction xs arbitrary: k)
  case Nil
  then show ?case by simp
next
  case (Cons x xs)
  then show ?case by (cases k) auto
qed

lemma unsettled_after_splice:
  "k < length xs \<Longrightarrow> settled (xs ! k) \<Longrightarrow>
   filter (\<lambda>e. \<not> settled e) (spliceOne k xs) = filter (\<lambda>e. \<not> settled e) xs"
proof (induction xs arbitrary: k)
  case Nil
  then show ?case by simp
next
  case (Cons x xs)
  then show ?case by (cases k) (auto simp: spliceOne_def)
qed

lemma findIndex_Some: "findIndex P xs = Some i \<Longrightarrow> i < length xs \<and> P (xs ! i)"
proof (induction xs arbitrary: i)
  case Nil
  then show ?case by simp
next
  case (Cons x xs)
  then show ?case by (cases "P x") auto
qed

lemma mset_map_spliceOne:
  "i < length xs \<Longrightarrow> mset (map f (spliceOne i xs)) + {#f (xs ! i)#} = mset (map f xs)"
proof (induction xs arbitrary: i)
  case Nil
  then show ?case by simp
next
  case (Cons x xs)
  then show ?case by (cases i) (auto simp: spliceOne_def)
qed

lemma pendingTasks_emitEvent [simp]: "pendingTasks (emitEvent ty d st) = pendingTasks st"
  by (simp add: pendingTasks_def)

lemma accountedIds_processQueue [simp]:
  "accountedIds (processQueue cfg now st) = accountedIds st"
  using processQueue_pending [of cfg now st]
  by (simp add: accountedIds_def)


lemma accountedCount_processQueue [simp]:
  "accountedCount (processQueue cfg now st) = accountedCount st"
proof -
  have "length (pendingTasks (processQueue cfg now st)) = length (pendingTasks st)"
    using processQueue_pending [of cfg now st] by (blast dest: mset_eq_length)
  then show ?thesis
    using processQueue_pending [of cfg now st] by (simp add: accountedCount_def)
qed

lemma pendingTasks_sortQueue: "mset (pendingTasks (sortQueue st)) = mset (pendingTasks st)"
  by (simp add: pendingTasks_def)

lemma dispatch_ledger:
  assumes "dispatch cfg now t st = Inr (tid, st')"
  shows "tid = task_id t \<and> accountedIds st' = accountedIds st + {#task_id t#} \<and>
         accountedCount st' = Suc (accountedCount st)"
proof -
  let ?item = "\<lparr>task = t, priority = Finite (calculatePriority t), addedAt = now,
                attempts = 0, lastAttemptAt = None, error = None\<rparr>"
  let ?s1 = "emitEvent ''task-queued''
               [(''taskId'', VString (task_id t)), (''priority'', VScore (Finite (calculatePriority t)))]
               (sortQueue (st\<lparr>taskQueue := taskQueue st @ [?item]\<rparr>))"
  have p: "mset (pendingTasks ?s1) = mset (pendingTasks st) + {#t#}"
    by (simp add: pendingTasks_def)
  have c: "completedTasks ?s1 = completedTasks st" "failedTasks ?s1 = failedTasks st"
    by simp_all
  have i: "accountedIds ?s1 = accountedIds st + {#task_id t#}"
    using p c by (simp add: accountedIds_def)
  have "length (pendingTasks ?s1) = Suc (length (pendingTasks st))"
    using arg_cong [OF p, of size] by simp
  then have n: "accountedCount ?s1 = Suc (accountedCount st)"
    using c by (simp add: accountedCount_def)
  have "st' = ?s1 \<or> st' = processQueue cfg now ?s1" and "tid = task_id t"
    using assms by (auto simp: dispatch_def Let_def split: if_splits)
  then show ?thesis using i n by auto
qed

lemma cancelTask_ledger:
  assumes "cancelTask tid st = (b, st')"
  shows "accountedIds st' + (if b then {#tid#} else {#}) = accountedIds st \<and>
         accountedCount st' + (if b then 1 else 0) = accountedCount st"
proof (cases "findIndex (\<lambda>item. task_id (task item) = tid) (taskQueue st)")
  case None
  then show ?thesis using assms by (simp add: cancelTask_def)
next
  case (Some i)
  then have i: "i < length (taskQueue st)" "task_id (task (taskQueue st ! i)) = tid"
    using findIndex_Some [of "\<lambda>item. task_id (task item) = tid" "taskQueue st" i] by auto
  have b: "b" and st': "st' = emitEvent ''task-cancelled'' [(''taskId'', VString tid)]
                   (st\<lparr>taskQueue := spliceOne i (taskQueue st)\<rparr>)"
    using assms Some by (auto simp: cancelTask_def)
  have m: "mset (map (\<lambda>x. task_id (task x)) (spliceOne i (taskQueue st))) + {#tid#} =
           mset (map (\<lambda>x. task_id (task x)) (taskQueue st))"
    using mset_map_spliceOne [OF i(1), of "\<lambda>x. task_id (task x)"] i(2) by simp
  have l: "Suc (length (spliceOne i (taskQueue st))) = length (taskQueue st)"
    using i(1) by (simp add: spliceOne_def)
  have "accountedIds st' + {#tid#} = accountedIds st"
    using m by (simp add: st' accountedIds_def pendingTasks_def comp_def)
  moreover have "Suc (accountedCount st') = accountedCount st"
    using l by (simp add: st' accountedCount_def pendingTasks_def)
  ultimately show ?thesis using b by simp
qed
lemma handleTaskCompletion_fields [simp]:
  "taskQueue (handleTaskCompletion eid r st) = taskQueue st"
  "executions (handleTaskCompletion eid r st) = executions st"
  "isRunning (handleTaskCompletion eid r st) = isRunning st"
  "isPaused (handleTaskCompletion eid r st) = isPaused st"
  "completedTasks (handleTaskCompletion eid r st) =
     (if success r then completedTasks st @ [r] else completedTasks st)"
  "failedTasks (handleTaskCompletion eid r st) =
     (if success r then failedTasks st else failedTasks st @ [r])"
  by (simp_all add: handleTaskCompletion_def)

lemma handleTaskError_fields [simp]:
  "executions (handleTaskError cfg now eid item msg st) = executions st"
  "isRunning (handleTaskError cfg now eid item msg st) = isRunning st"
  "isPaused (handleTaskError cfg now eid item msg st) = isPaused st"
  "completedTasks (handleTaskError cfg now eid item msg st) = completedTasks st"
  "taskQueue (handleTaskError cfg now eid item msg st) =
     (if retryFailedTasks cfg \<and> int (Suc (attempts item)) < maxRetries cfg
      then sort_key sortKey (taskQueue st @ [recordFailure now msg item])
      else taskQueue st)"
  "failedTasks (handleTaskError cfg now eid item msg st) =
     (if retryFailedTasks cfg \<and> int (Suc (attempts item)) < maxRetries cfg
      then failedTasks st
      else failedTasks st @ [failureResult now msg (recordFailure now msg item)])"
  by (simp_all add: handleTaskError_def Let_def recordFailure_def)

lemma recordFailure_fields [simp]:
  "task (recordFailure now msg item) = task item"
  "attempts (recordFailure now msg item) = Suc (attempts item)"
  "addedAt (recordFailure now msg item) = addedAt item"
  "priority (recordFailure now msg item) = priority item"
  "error (recordFailure now msg item) = Some msg"
  "lastAttemptAt (recordFailure now msg item) = Some now"
  by (simp_all add: recordFailure_def)

lemma failureResult_fields [simp]:
  "taskId (failureResult now msg item) = task_id (task item)"
  "success (failureResult now msg item) = False"
  "retryCount (failureResult now msg item) = attempts item"
  "errors (failureResult now msg item) =
     [\<lparr>code = ''EXECUTION_ERROR'', message = msg, errorPhase = Act, recoverable = False\<rparr>]"
  by (simp_all add: failureResult_def)

lemma length_unsettled_after_settle:
  "k < length xs \<Longrightarrow> \<not> settled (xs ! k) \<Longrightarrow>
   Suc (length (filter (\<lambda>e. \<not> settled e) (xs[k := (xs ! k)\<lparr>settled := True\<rparr>]))) =
   length (filter (\<lambda>e. \<not> settled e) xs)"
proof (induction xs arbitrary: k)
  case Nil
  then show ?case by simp
next
  case (Cons x xs)
  then show ?case by (cases k) auto
qed

lemma onSettled_count:
  "accountedCount (onSettled cfg now k outcome st) = accountedCount st"
proof -
  let ?xs = "executions st"
  let ?ys = "?xs[k := (?xs ! k)\<lparr>settled := True\<rparr>]"
  show "accountedCount (onSettled cfg now k outcome st) = accountedCount st"
  proof (cases "k < length ?xs \<and> \<not> settled (?xs ! k)")
    case False
    then show ?thesis by (auto simp: onSettled_def)
  next
    case True
    then have l: "Suc (length (filter (\<lambda>e. \<not> settled e) ?ys)) =
                  length (filter (\<lambda>e. \<not> settled e) ?xs)"
      by (simp add: length_unsettled_after_settle)
    show ?thesis
      using True l
      by (cases outcome)
         (simp_all add: onSettled_def runExecution_def Let_def accountedCount_def
            pendingTasks_def)
  qed
qed

lemma onSettled_ids:
  assumes a: "opAttributed (Settle k outcome now) st"
  shows "accountedIds (onSettled cfg now k outcome st) = accountedIds st"
proof -
  let ?xs = "executions st"
  let ?ys = "?xs[k := (?xs ! k)\<lparr>settled := True\<rparr>]"
  let ?f = "\<lambda>e. task_id (task (execItem e))"
  show "accountedIds (onSettled cfg now k outcome st) = accountedIds st"
  proof (cases "k < length ?xs \<and> \<not> settled (?xs ! k)")
    case False
    then show ?thesis by (auto simp: onSettled_def)
  next
    case True
    then have m: "mset (map ?f (filter (\<lambda>e. \<not> settled e) ?ys)) + {#?f (?xs ! k)#} =
                  mset (map ?f (filter (\<lambda>e. \<not> settled e) ?xs))"
      by (intro unsettled_after_settle) auto
    show ?thesis
    proof (cases outcome)
      case (Resolved r)
      then have "taskId r = ?f (?xs ! k)" using a True by simp
      then show ?thesis
        using True m [symmetric] Resolved
        by (simp add: onSettled_def runExecution_def Let_def accountedIds_def
              pendingTasks_def comp_def)
    next
      case (Rejected msg)
      then show ?thesis
        using True m [symmetric]
        by (simp add: onSettled_def runExecution_def Let_def accountedIds_def
              pendingTasks_def comp_def)
    next
      case TimedOut
      then show ?thesis
        using True m [symmetric]
        by (simp add: onSettled_def runExecution_def Let_def accountedIds_def
              pendingTasks_def comp_def)
    qed
  qed
qed

lemma onFinally_ledger:
  "accountedCount (onFinally cfg now k st) = accountedCount st"
  "accountedIds (onFinally cfg now k st) = accountedIds st"
proof -
  have "accountedCount (onFinally cfg now k st) = accountedCount st \<and>
        accountedIds (onFinally cfg now k st) = accountedIds st"
  proof (cases "k < length (executions st) \<and> settled (executions st ! k)")
    case False
    then show ?thesis by (auto simp: onFinally_def)
  next
    case True
    then have "filter (\<lambda>e. \<not> settled e) (spliceOne k (executions st)) =
               filter (\<lambda>e. \<not> settled e) (executions st)"
      by (simp add: unsettled_after_splice)
    then show ?thesis
      using True
      by (simp add: onFinally_def Let_def)
         (simp add: accountedCount_def accountedIds_def pendingTasks_def)
  qed
  then show "accountedCount (onFinally cfg now k st) = accountedCount st"
    and "accountedIds (onFinally cfg now k st) = accountedIds st" by simp_all
qed

lemma handleRARVEvent_ledger [simp]:
  "accountedCount (handleRARVEvent eid ev st) = accountedCount st"
  "accountedIds (handleRARVEvent eid ev st) = accountedIds st"
  by (simp_all add: handleRARVEvent_def Let_def accountedCount_def accountedIds_def
        pendingTasks_def split: option.splits)

lemma start_ledger [simp]:
  "accountedCount (start cfg now st) = accountedCount st"
  "accountedIds (start cfg now st) = accountedIds st"
  by (simp_all add: start_def) (simp_all add: accountedCount_def accountedIds_def pendingTasks_def)

lemma resume_ledger [simp]:
  "accountedCount (resume cfg now st) = accountedCount st"
  "accountedIds (resume cfg now st) = accountedIds st"
  by (simp_all add: resume_def) (simp_all add: accountedCount_def accountedIds_def pendingTasks_def)

lemma simple_ops_ledger [simp]:
  "accountedCount (stop st) = accountedCount st"
  "accountedIds (stop st) = accountedIds st"
  "accountedCount (stopSettled st) = accountedCount st"
  "accountedIds (stopSettled st) = accountedIds st"
  "accountedCount (pause st) = accountedCount st"
  "accountedIds (pause st) = accountedIds st"
  by (simp_all add: stop_def stopSettled_def pause_def accountedCount_def accountedIds_def
        pendingTasks_def)

lemma step_ledger:
  assumes "step cfg op st = (r, st')"
  shows "accountedCount st' + length (cancelledId op r) =
           accountedCount st + length (dispatchedId r) \<and>
         (opAttributed op st \<longrightarrow>
          accountedIds st' + mset (cancelledId op r) =
            accountedIds st + mset (dispatchedId r))"
proof (cases op)
  case (Dispatch t now)
  show ?thesis
  proof (cases "dispatch cfg now t st")
    case (Inl e)
    then show ?thesis using assms Dispatch by auto
  next
    case (Inr p)
    obtain tid s where p: "p = (tid, s)" by (cases p)
    from dispatch_ledger [of cfg now t st tid s] Inr p assms Dispatch
    show ?thesis by auto
  qed
next
  case (CancelTask tid)
  obtain b s where c: "cancelTask tid st = (b, s)" by (cases "cancelTask tid st")
  from cancelTask_ledger [OF c] c assms CancelTask
  show ?thesis by (cases b) auto
next
  case (Settle k outcome now)
  then show ?thesis
    using assms onSettled_count [of cfg now k outcome st] onSettled_ids [of k outcome now st cfg]
    by auto
next
  case (Finally k now)
  then show ?thesis using assms onFinally_ledger [of cfg now k st] by auto
qed (use assms in auto)

lemma run_ledger:
  "run cfg ops st = (rs, st') \<Longrightarrow>
   accountedCount st' + length (cancelledIds ops rs) =
     accountedCount st + length (dispatchedIds rs) \<and>
   (attributed cfg ops st \<longrightarrow>
      accountedIds st' + mset (cancelledIds ops rs) =
        accountedIds st + mset (dispatchedIds rs))"
proof (induction ops arbitrary: st rs)
  case Nil
  then show ?case by (simp add: cancelledIds_def dispatchedIds_def)
next
  case (Cons op ops)
  obtain r s1 where s: "step cfg op st = (r, s1)" by (cases "step cfg op st")
  obtain rs1 where r: "run cfg ops s1 = (rs1, st')" and rs: "rs = r # rs1"
    using Cons.prems s by (auto split: prod.splits)
  note ih = Cons.IH [OF r]
  note st = step_ledger [OF s]
  have cc: "cancelledIds (op # ops) rs = cancelledId op r @ cancelledIds ops rs1"
    by (simp add: rs cancelledIds_def)
  have dd: "dispatchedIds rs = dispatchedId r @ dispatchedIds rs1"
    by (simp add: rs dispatchedIds_def)
  have c: "accountedCount st' + length (cancelledIds (op # ops) rs) =
           accountedCount st + length (dispatchedIds rs)"
    using ih st by (simp only: cc dd length_append) arith
  have i: "accountedIds st' + mset (cancelledIds (op # ops) rs) =
           accountedIds st + mset (dispatchedIds rs)"
    if a: "attributed cfg (op # ops) st"
  proof -
    have a1: "opAttributed op st" and a2: "attributed cfg ops s1"
      using a s by simp_all
    have e1: "accountedIds st' + mset (cancelledIds ops rs1) =
              accountedIds s1 + mset (dispatchedIds rs1)"
      using ih a2 by blast
    have e2: "accountedIds s1 + mset (cancelledId op r) =
              accountedIds st + mset (dispatchedId r)"
      using st a1 by blast
    have "accountedIds st' + (mset (cancelledId op r) + mset (cancelledIds ops rs1)) =
          accountedIds st + (mset (dispatchedId r) + mset (dispatchedIds rs1))"
      using e1 e2 by (metis (no_types, lifting) add.assoc add.commute)
    then show ?thesis
      by (simp only: cc dd mset_append)
  qed
  show ?case using c i by blast
qed

section \<open>No task is lost; the concurrency limit\<close>

lemma distinct_from_mset: "mset xs = mset ys \<Longrightarrow> distinct ys \<Longrightarrow> distinct xs"
  by (metis mset_eq_imp_distinct_iff)

text \<open>
  C2. When a run has come to rest, with the queue empty and no execution promise left
  unsettled, every dispatched task has exactly one outcome. The completed, failed and
  cancelled counts add up to the number of dispatched tasks. When every result carries
  the id of the task it was computed for, the ids of the completed and failed results
  and of the cancelled tasks are, as a multiset, the ids that \<open>dispatch\<close> returned: no
  id receives more outcomes than it was dispatched times, and with distinct dispatched ids
  no id receives two.
\<close>

theorem no_task_lost:
  assumes "run cfg ops initialState = (rs, st)"
    and "taskQueue st = []"
    and "list_all settled (executions st)"
  shows "length (completedTasks st) + length (failedTasks st) + length (cancelledIds ops rs) =
           length (dispatchedIds rs) \<and>
         (attributed cfg ops initialState \<longrightarrow>
            mset (map taskId (completedTasks st) @ map taskId (failedTasks st) @
                  cancelledIds ops rs) = mset (dispatchedIds rs)) \<and>
         (attributed cfg ops initialState \<longrightarrow> distinct (dispatchedIds rs) \<longrightarrow>
            distinct (map taskId (completedTasks st) @ map taskId (failedTasks st) @
                      cancelledIds ops rs))"
proof -
  have "filter (\<lambda>e. \<not> settled e) (executions st) = []"
    using assms(3) by (simp add: list_all_iff)
  then have p: "pendingTasks st = []"
    using assms(2) by (simp add: pendingTasks_def)
  have p0: "accountedCount initialState = 0" "accountedIds initialState = {#}"
    by (simp_all add: accountedCount_def accountedIds_def pendingTasks_def initialState_def)
  note l = run_ledger [OF assms(1)]
  have c: "length (completedTasks st) + length (failedTasks st) + length (cancelledIds ops rs) =
           length (dispatchedIds rs)"
    using l p p0 by (simp add: accountedCount_def)
  have m: "mset (map taskId (completedTasks st) @ map taskId (failedTasks st) @
                  cancelledIds ops rs) = mset (dispatchedIds rs)"
    if "attributed cfg ops initialState"
    using l that p p0 by (simp add: accountedIds_def ac_simps)
  show ?thesis using c m distinct_from_mset by blast
qed

theorem no_task_lost_witness:
  "length (completedTasks (snd (run DEFAULT_CONFIG demoOps initialState))) +
   length (failedTasks (snd (run DEFAULT_CONFIG demoOps initialState))) +
   length (cancelledIds demoOps (fst (run DEFAULT_CONFIG demoOps initialState))) = 3 \<and>
   dispatchedIds (fst (run DEFAULT_CONFIG demoOps initialState)) = [''b'', ''a'', ''c''] \<and>
   distinct (map taskId (completedTasks (snd (run DEFAULT_CONFIG demoOps initialState))) @
             map taskId (failedTasks (snd (run DEFAULT_CONFIG demoOps initialState))) @
             cancelledIds demoOps (fst (run DEFAULT_CONFIG demoOps initialState)))"
proof -
  let ?r = "run DEFAULT_CONFIG demoOps initialState"
  have r: "?r = (fst ?r, snd ?r)" by simp
  have q: "taskQueue (snd ?r) = []" by code_simp
  have e: "list_all settled (executions (snd ?r))" by code_simp
  have a: "attributed DEFAULT_CONFIG demoOps initialState" by code_simp
  have d: "dispatchedIds (fst ?r) = [''b'', ''a'', ''c'']" by code_simp
  then have "distinct (dispatchedIds (fst ?r))" by simp
  then show ?thesis using no_task_lost [OF r q e] a d by simp
qed

text \<open>
  What the condition of the admission loop keeps: with a concurrency limit that is not
  negative, after every operation of every run the map of active agents has at most
  \<open>maxConcurrent\<close> entries. The loop runs its body only in a state with fewer
  entries than the limit, the state after the body is within the limit again, and
  \<open>processQueue\<close> on a state at the limit admits nothing.
\<close>

lemma activeAgents_size_bounded:
  assumes "0 \<le> maxConcurrent cfg"
  shows "int (length (activeAgents (snd (run cfg ops initialState)))) \<le> maxConcurrent cfg \<and>
         (\<forall>st now. canAdmit cfg st \<longrightarrow>
            int (length (activeAgents st)) < maxConcurrent cfg \<and>
            int (length (activeAgents (admitNext now st))) \<le> maxConcurrent cfg) \<and>
         (\<forall>st now. maxConcurrent cfg \<le> int (length (activeAgents st)) \<longrightarrow>
            executions (processQueue cfg now st) = executions st \<and>
            activeAgents (processQueue cfg now st) = activeAgents st \<and>
            length (taskQueue (processQueue cfg now st)) = length (taskQueue st))"
proof -
  have "int (length (activeAgents initialState)) \<le> maxConcurrent cfg"
    using assms by (simp add: initialState_def)
  then have "int (length (activeAgents (snd (run cfg ops initialState)))) \<le> maxConcurrent cfg"
    by (rule run_bounded)
  moreover have "\<forall>st now. canAdmit cfg st \<longrightarrow>
            int (length (activeAgents st)) < maxConcurrent cfg \<and>
            int (length (activeAgents (admitNext now st))) \<le> maxConcurrent cfg"
    using admitNext_bounded by (auto simp: canAdmit_def)
  ultimately show ?thesis using processQueue_at_limit by blast
qed

text \<open>The bound at a run that fills the single slot of a configuration and queues a task.\<close>

lemma activeAgents_size_bounded_example:
  "0 \<le> maxConcurrent singleSlotConfig \<and>
   length (activeAgents (snd (run singleSlotConfig singleSlotOps initialState))) = 1 \<and>
   length (taskQueue (snd (run singleSlotConfig singleSlotOps initialState))) = 1 \<and>
   executions (processQueue singleSlotConfig 3 (snd (run singleSlotConfig singleSlotOps initialState))) =
     executions (snd (run singleSlotConfig singleSlotOps initialState)) \<and>
   canAdmit singleSlotConfig (snd (run singleSlotConfig [Start 0, Stop, Dispatch demoTaskA 1] initialState)) \<and>
   length (activeAgents (admitNext 2 (snd (run singleSlotConfig [Start 0, Stop, Dispatch demoTaskA 1] initialState)))) = 1"
proof -
  let ?s = "snd (run singleSlotConfig singleSlotOps initialState)"
  let ?u = "snd (run singleSlotConfig [Start 0, Stop, Dispatch demoTaskA 1] initialState)"
  have h: "0 \<le> maxConcurrent singleSlotConfig" by code_simp
  have a: "length (activeAgents ?s) = 1" by code_simp
  have q: "length (taskQueue ?s) = 1" by code_simp
  have m: "maxConcurrent singleSlotConfig = 1" by code_simp
  have c: "canAdmit singleSlotConfig ?u" by code_simp
  have n: "length (activeAgents (admitNext 2 ?u)) = 1" by code_simp
  note t = activeAgents_size_bounded [OF h, of singleSlotOps]
  have "maxConcurrent singleSlotConfig \<le> int (length (activeAgents ?s))"
    using a m by simp
  then have "executions (processQueue singleSlotConfig 3 ?s) = executions ?s"
    using t by blast
  moreover have "int (length (activeAgents (admitNext 2 ?u))) \<le> maxConcurrent singleSlotConfig"
    using t c by blast
  ultimately show ?thesis using h a q c n by blast
qed

text \<open>
  An entry of the map is not a run in flight. \<open>executeTask\<close> names an execution by
  the id of the task and the clock reading in milliseconds, so an attempt of a task that
  is admitted in the millisecond of an earlier attempt of the same task gets the key of
  the earlier one: \<open>set\<close> overwrites the entry, the size of the map does not grow and
  the loop admits one task more; the \<open>finally\<close> callback of the earlier attempt then
  deletes the entry of the later one, which runs on without an entry.
\<close>

lemma executeTask_overwrites:
  assumes "mapGet (activeAgents st) (executionIdFor (task queueItem) now) \<noteq> None"
  shows "length (activeAgents (executeTask now queueItem st)) = length (activeAgents st)"
    and "length (inFlight (executeTask now queueItem st)) = Suc (length (inFlight st))"
proof -
  have m: "mapGet m k \<noteq> None \<Longrightarrow> length (mapSet k v m) = length m"
    for m :: "(string \<times> ActiveAgentInfo) list" and k v
    by (induction m) (auto simp: mapGet_def)
  show "length (activeAgents (executeTask now queueItem st)) = length (activeAgents st)"
    using assms by (simp add: executeTask_def emitEvent_def Let_def m)
  show "length (inFlight (executeTask now queueItem st)) = Suc (length (inFlight st))"
    by (simp add: executeTask_def emitEvent_def inFlight_def Let_def)
qed

text \<open>
  C3 fails on the code. The limit is two. Task a is admitted as \<open>exec_a_0\<close>, its
  attempt is rejected and the task is queued again; task b is dispatched in the same
  millisecond, before the \<open>finally\<close> callback of the first attempt: the loop admits
  the second attempt of a, again as \<open>exec_a_0\<close>, and b, so that two runs are in
  flight under two keys. Task c is dispatched and waits. The callback of the first
  attempt deletes \<open>exec_a_0\<close>, the map has one entry, and the loop admits c. Now
  three runs are in flight, the second attempt of a among them, while the map, whose size
  the loop compares with the limit, holds two entries.
\<close>

theorem concurrency_limit_exceeded:
  "maxConcurrent twoSlotConfig = 2 \<and>
   fst (run twoSlotConfig collisionOps initialState) =
     [Done, Dispatched ''a'', Done, Dispatched ''b'', Dispatched ''c'', Done] \<and>
   map fst (activeAgents (snd (run twoSlotConfig (take 4 collisionOps) initialState))) =
     [''exec_a_0'', ''exec_b_0''] \<and>
   map execId (inFlight (snd (run twoSlotConfig (take 4 collisionOps) initialState))) =
     [''exec_a_0'', ''exec_b_0''] \<and>
   map fst (activeAgents (snd (run twoSlotConfig collisionOps initialState))) =
     [''exec_b_0'', ''exec_c_1''] \<and>
   map execId (inFlight (snd (run twoSlotConfig collisionOps initialState))) =
     [''exec_a_0'', ''exec_b_0'', ''exec_c_1''] \<and>
   map task_id (map task (map execItem (inFlight (snd (run twoSlotConfig collisionOps initialState))))) =
     [''a'', ''b'', ''c''] \<and>
   map attempts (map execItem (inFlight (snd (run twoSlotConfig collisionOps initialState)))) =
     [1, 0, 0] \<and>
   length (inFlight (snd (run twoSlotConfig collisionOps initialState))) = 3 \<and>
   taskQueue (snd (run twoSlotConfig collisionOps initialState)) = [] \<and>
   failedTasks (snd (run twoSlotConfig collisionOps initialState)) = [] \<and>
   map eventType (emitted (snd (run twoSlotConfig collisionOps initialState))) =
     [''orchestrator-started'', ''task-queued'', ''agent-started'', ''task-retry'',
      ''task-queued'', ''agent-started'', ''agent-started'', ''task-queued'',
      ''agent-started'']"
  by code_simp

section \<open>Queue capacity and the retry policy\<close>

text \<open>
  C8. \<open>dispatch\<close> on a queue that holds \<open>queueSize\<close> items (or more) throws the error
  "Task queue is full" and the orchestrator state is the one before the call; on a
  queue below the capacity it returns the id of the task.
\<close>

theorem dispatch_queue_full:
  "(queueSize cfg \<le> int (length (taskQueue st)) \<longrightarrow>
      dispatch cfg now t st = Inl (Error ''Task queue is full'') \<and>
      step cfg (Dispatch t now) st = (DispatchFailed (Error ''Task queue is full''), st)) \<and>
   (int (length (taskQueue st)) < queueSize cfg \<longrightarrow>
      (\<exists>st'. dispatch cfg now t st = Inr (task_id t, st')))"
  by (auto simp: dispatch_def Let_def)

theorem dispatch_queue_full_witness:
  "int (length (taskQueue (snd (run tinyQueueConfig [Dispatch demoTaskA 0] initialState)))) =
     queueSize tinyQueueConfig \<and>
   step tinyQueueConfig (Dispatch demoTaskB 1)
     (snd (run tinyQueueConfig [Dispatch demoTaskA 0] initialState)) =
     (DispatchFailed (Error ''Task queue is full''),
      snd (run tinyQueueConfig [Dispatch demoTaskA 0] initialState)) \<and>
   int (length (taskQueue initialState)) < queueSize tinyQueueConfig \<and>
   (\<exists>st'. dispatch tinyQueueConfig 0 demoTaskA initialState = Inr (''a'', st'))"
proof -
  let ?s = "snd (run tinyQueueConfig [Dispatch demoTaskA 0] initialState)"
  have f: "int (length (taskQueue ?s)) = queueSize tinyQueueConfig" by code_simp
  have e: "int (length (taskQueue initialState)) < queueSize tinyQueueConfig" by code_simp
  have i: "task_id demoTaskA = ''a''" by (simp add: demoTaskA_def)
  have "queueSize tinyQueueConfig \<le> int (length (taskQueue ?s))" using f by simp
  then have "step tinyQueueConfig (Dispatch demoTaskB 1) ?s =
               (DispatchFailed (Error ''Task queue is full''), ?s)"
    using dispatch_queue_full [of tinyQueueConfig ?s 1 demoTaskB] by blast
  moreover have "\<exists>st'. dispatch tinyQueueConfig 0 demoTaskA initialState = Inr (''a'', st')"
    using dispatch_queue_full [of tinyQueueConfig initialState 0 demoTaskA] e i by simp
  ultimately show ?thesis using f e by blast
qed

lemma onSettled_emitted:
  "k < length (executions st) \<Longrightarrow> \<not> settled (executions st ! k) \<Longrightarrow>
   runExecution cfg outcome = Inl msg \<Longrightarrow>
   emitted (onSettled cfg now k outcome st) =
     emitted (handleTaskError cfg now (execId (executions st ! k)) (execItem (executions st ! k)) msg st)"
  by (simp add: onSettled_def Let_def)

lemma onSettled_rejected_fields:
  assumes "k < length (executions st)" "\<not> settled (executions st ! k)"
    "runExecution cfg outcome = Inl msg"
  shows "taskQueue (onSettled cfg now k outcome st) =
           taskQueue (handleTaskError cfg now (execId (executions st ! k)) (execItem (executions st ! k)) msg st)"
    and "failedTasks (onSettled cfg now k outcome st) =
           failedTasks (handleTaskError cfg now (execId (executions st ! k)) (execItem (executions st ! k)) msg st)"
    and "completedTasks (onSettled cfg now k outcome st) = completedTasks st"
  using assms by (simp_all add: onSettled_def Let_def)

lemma onSettled_resolved_fields:
  assumes "k < length (executions st)" "\<not> settled (executions st ! k)"
    "runExecution cfg outcome = Inr result" "\<not> success result"
  shows "taskQueue (onSettled cfg now k outcome st) = taskQueue st"
    and "completedTasks (onSettled cfg now k outcome st) = completedTasks st"
    and "failedTasks (onSettled cfg now k outcome st) = failedTasks st @ [result]"
    and "activeAgents (onSettled cfg now k outcome st) = activeAgents st"
    and "execItem (executions (onSettled cfg now k outcome st) ! k) = execItem (executions st ! k)"
    and "emitted (onSettled cfg now k outcome st) = emitted st @
           [\<lparr>eventType = ''task-failed'',
             eventData =
               [(''executionId'', VString (execId (executions st ! k))),
                (''taskId'', VString (taskId result)),
                (''errors'', VErrors (errors result))]\<rparr>]"
  using assms
  by (simp_all add: onSettled_def handleTaskCompletion_def emitEvent_def Let_def)

text \<open>
  C1, as amended. The execution promise of an attempt that has not settled before
  settles. When it rejects, by the timer or by an error of the phase cycle, the attempt
  goes through \<open>handleTaskError\<close>: the attempt counter of the queue item goes up by
  one and the message is recorded; when retrying is enabled and the new count is below
  \<open>maxRetries\<close> the item is put back into the sorted queue, \<open>task-retry\<close> is
  emitted and the failed list is unchanged; otherwise exactly one failure result is
  appended to the failed list and \<open>task-failed\<close> is emitted. When it resolves with
  an unsuccessful result, whatever the configuration and the attempts made so far, the
  attempt goes through \<open>handleTaskCompletion\<close>: that result is appended to the
  failed list and \<open>task-failed\<close> is emitted at once, the queue is unchanged, so the
  task is not queued again, and the attempt counter of the queue item is untouched.
\<close>

theorem retry_policy_of_settlement:
  assumes "k < length (executions st)"
    and "\<not> settled (executions st ! k)"
  shows "runExecution cfg TimedOut =
           Inl (''Task timeout after '' @ showInt (taskTimeout cfg) @ ''ms'') \<and>
         runExecution cfg (Rejected msg) = Inl msg \<and>
         runExecution cfg (Resolved result) = Inr result \<and>
         (runExecution cfg outcome = Inl msg \<longrightarrow>
            attempts (recordFailure now msg (execItem (executions st ! k))) =
              Suc (attempts (execItem (executions st ! k))) \<and>
            error (recordFailure now msg (execItem (executions st ! k))) = Some msg \<and>
            completedTasks (onSettled cfg now k outcome st) = completedTasks st \<and>
            (retryFailedTasks cfg \<and>
             int (attempts (recordFailure now msg (execItem (executions st ! k)))) < maxRetries cfg \<longrightarrow>
               taskQueue (onSettled cfg now k outcome st) =
                 sort_key sortKey (taskQueue st @ [recordFailure now msg (execItem (executions st ! k))]) \<and>
               failedTasks (onSettled cfg now k outcome st) = failedTasks st \<and>
               emitted (onSettled cfg now k outcome st) = emitted st @
                 [\<lparr>eventType = ''task-retry'',
                   eventData =
                     [(''executionId'', VString (execId (executions st ! k))),
                      (''taskId'', VString (task_id (task (execItem (executions st ! k))))),
                      (''attempt'', VInt (int (Suc (attempts (execItem (executions st ! k)))))),
                      (''error'', VString msg)]\<rparr>]) \<and>
            (\<not> (retryFailedTasks cfg \<and>
                int (attempts (recordFailure now msg (execItem (executions st ! k)))) < maxRetries cfg) \<longrightarrow>
               taskQueue (onSettled cfg now k outcome st) = taskQueue st \<and>
               failedTasks (onSettled cfg now k outcome st) = failedTasks st @
                 [failureResult now msg (recordFailure now msg (execItem (executions st ! k)))] \<and>
               emitted (onSettled cfg now k outcome st) = emitted st @
                 [\<lparr>eventType = ''task-failed'',
                   eventData =
                     [(''executionId'', VString (execId (executions st ! k))),
                      (''taskId'', VString (task_id (task (execItem (executions st ! k))))),
                      (''error'', VString msg),
                      (''attempts'', VInt (int (Suc (attempts (execItem (executions st ! k))))))]\<rparr>])) \<and>
         (runExecution cfg outcome = Inr result \<and> \<not> success result \<longrightarrow>
            taskQueue (onSettled cfg now k outcome st) = taskQueue st \<and>
            completedTasks (onSettled cfg now k outcome st) = completedTasks st \<and>
            failedTasks (onSettled cfg now k outcome st) = failedTasks st @ [result] \<and>
            activeAgents (onSettled cfg now k outcome st) = activeAgents st \<and>
            execItem (executions (onSettled cfg now k outcome st) ! k) =
              execItem (executions st ! k) \<and>
            emitted (onSettled cfg now k outcome st) = emitted st @
              [\<lparr>eventType = ''task-failed'',
                eventData =
                  [(''executionId'', VString (execId (executions st ! k))),
                   (''taskId'', VString (taskId result)),
                   (''errors'', VErrors (errors result))]\<rparr>])"
proof -
  have e: "emitted (handleTaskError cfg now eid item msg st) = emitted st @
             [if retryFailedTasks cfg \<and> int (Suc (attempts item)) < maxRetries cfg
              then \<lparr>eventType = ''task-retry'',
                    eventData =
                      [(''executionId'', VString eid), (''taskId'', VString (task_id (task item))),
                       (''attempt'', VInt (int (Suc (attempts item)))), (''error'', VString msg)]\<rparr>
              else \<lparr>eventType = ''task-failed'',
                    eventData =
                      [(''executionId'', VString eid), (''taskId'', VString (task_id (task item))),
                       (''error'', VString msg), (''attempts'', VInt (int (Suc (attempts item))))]\<rparr>]"
    for eid item
    by (simp add: handleTaskError_def Let_def)
  have r: "runExecution cfg TimedOut =
             Inl (''Task timeout after '' @ showInt (taskTimeout cfg) @ ''ms'') \<and>
           runExecution cfg (Rejected msg) = Inl msg \<and>
           runExecution cfg (Resolved result) = Inr result"
    by (simp add: runExecution_def)
  have a: ?thesis if h: "runExecution cfg outcome = Inl msg"
  proof -
    note f = onSettled_rejected_fields [OF assms h] onSettled_emitted [OF assms h]
    show ?thesis
      using h by (simp add: f e runExecution_def)
  qed
  have b: ?thesis if h: "runExecution cfg outcome = Inr result" and n: "\<not> success result"
  proof -
    note g = onSettled_resolved_fields [OF assms h n]
    show ?thesis
      using h n by (simp add: g runExecution_def)
  qed
  have c: ?thesis
    if "runExecution cfg outcome \<noteq> Inl msg"
      and "\<not> (runExecution cfg outcome = Inr result \<and> \<not> success result)"
    using that r by blast
  show ?thesis
    using a b c by blast
qed

theorem retry_policy_of_settlement_witness:
  "0 < length (executions (snd (run DEFAULT_CONFIG admitOps initialState))) \<and>
   \<not> settled (executions (snd (run DEFAULT_CONFIG admitOps initialState)) ! 0) \<and>
   runExecution DEFAULT_CONFIG TimedOut = Inl ''Task timeout after 300000ms'' \<and>
   failedTasks (snd (run DEFAULT_CONFIG admitOps initialState)) = [] \<and>
   failedTasks (onSettled DEFAULT_CONFIG 2 0 TimedOut
                  (snd (run DEFAULT_CONFIG admitOps initialState))) = [] \<and>
   0 < length (executions (snd (run noRetryConfig admitOps initialState))) \<and>
   \<not> settled (executions (snd (run noRetryConfig admitOps initialState)) ! 0) \<and>
   runExecution noRetryConfig (Rejected ''boom'') = Inl ''boom'' \<and>
   taskQueue (snd (run noRetryConfig admitOps initialState)) = [] \<and>
   taskQueue (onSettled noRetryConfig 2 0 (Rejected ''boom'')
                (snd (run noRetryConfig admitOps initialState))) = [] \<and>
   runExecution DEFAULT_CONFIG (Resolved demoFailureC) = Inr demoFailureC \<and>
   \<not> success demoFailureC \<and>
   taskQueue (snd (run DEFAULT_CONFIG admitOps initialState)) = [] \<and>
   taskQueue (onSettled DEFAULT_CONFIG 2 0 (Resolved demoFailureC)
                (snd (run DEFAULT_CONFIG admitOps initialState))) = [] \<and>
   failedTasks (onSettled DEFAULT_CONFIG 2 0 (Resolved demoFailureC)
                  (snd (run DEFAULT_CONFIG admitOps initialState))) = [demoFailureC]"
proof -
  let ?s = "snd (run DEFAULT_CONFIG admitOps initialState)"
  let ?u = "snd (run noRetryConfig admitOps initialState)"
  let ?m = "''Task timeout after 300000ms''"
  have s1: "0 < length (executions ?s)" by code_simp
  have s2: "\<not> settled (executions ?s ! 0)" by code_simp
  have u1: "0 < length (executions ?u)" by code_simp
  have u2: "\<not> settled (executions ?u ! 0)" by code_simp
  have rs: "runExecution DEFAULT_CONFIG TimedOut = Inl ?m" by code_simp
  have ru: "runExecution noRetryConfig (Rejected ''boom'') = Inl ''boom''" by code_simp
  have rr: "runExecution DEFAULT_CONFIG (Resolved demoFailureC) = Inr demoFailureC"
    by (simp add: runExecution_def)
  have ns: "\<not> success demoFailureC" by (simp add: demoFailureC_def)
  have cs: "retryFailedTasks DEFAULT_CONFIG \<and>
            int (attempts (recordFailure 2 ?m (execItem (executions ?s ! 0)))) < maxRetries DEFAULT_CONFIG"
    by code_simp
  have cu: "\<not> (retryFailedTasks noRetryConfig \<and>
            int (attempts (recordFailure 2 ''boom'' (execItem (executions ?u ! 0)))) < maxRetries noRetryConfig)"
    by code_simp
  have fs: "failedTasks ?s = []" by code_simp
  have qs: "taskQueue ?s = []" by code_simp
  have qu: "taskQueue ?u = []" by code_simp
  from retry_policy_of_settlement [OF s1 s2, where cfg = DEFAULT_CONFIG and outcome = TimedOut
      and msg = ?m and now = 2] rs cs
  have b: "failedTasks (onSettled DEFAULT_CONFIG 2 0 TimedOut ?s) = failedTasks ?s"
    by blast
  from retry_policy_of_settlement [OF u1 u2, where cfg = noRetryConfig
      and outcome = "Rejected ''boom''" and msg = "''boom''" and now = 2] ru cu
  have c: "taskQueue (onSettled noRetryConfig 2 0 (Rejected ''boom'') ?u) = taskQueue ?u"
    by blast
  from retry_policy_of_settlement [OF s1 s2, where cfg = DEFAULT_CONFIG
      and outcome = "Resolved demoFailureC" and result = demoFailureC and now = 2] rr ns
  have d: "taskQueue (onSettled DEFAULT_CONFIG 2 0 (Resolved demoFailureC) ?s) = taskQueue ?s \<and>
           failedTasks (onSettled DEFAULT_CONFIG 2 0 (Resolved demoFailureC) ?s) =
             failedTasks ?s @ [demoFailureC]"
    by blast
  have b': "failedTasks (onSettled DEFAULT_CONFIG 2 0 TimedOut ?s) = []"
    using b fs by (rule trans)
  have c': "taskQueue (onSettled noRetryConfig 2 0 (Rejected ''boom'') ?u) = []"
    using c qu by (rule trans)
  have d1: "taskQueue (onSettled DEFAULT_CONFIG 2 0 (Resolved demoFailureC) ?s) = []"
    using d qs by simp
  have d2: "failedTasks (onSettled DEFAULT_CONFIG 2 0 (Resolved demoFailureC) ?s) = [demoFailureC]"
    using d fs by simp
  show ?thesis
    using s1 s2 rs fs b' u1 u2 ru qu c' rr ns qs d1 d2 by blast
qed

text \<open>
  C1 as stated fails for an attempt that resolves with an unsuccessful result: with
  retrying enabled, three attempts allowed and none used, \<open>handleTaskCompletion\<close>
  appends the result to the failed list, the attempt counter stays at zero and the task
  is not queued again.
\<close>

theorem retry_policy_counterexample:
  "retryFailedTasks DEFAULT_CONFIG \<and> maxRetries DEFAULT_CONFIG = 3 \<and>
   \<not> success demoFailureC \<and>
   attempts (execItem (hd (executions (snd (run DEFAULT_CONFIG failedResultOps initialState))))) = 0 \<and>
   failedTasks (snd (run DEFAULT_CONFIG failedResultOps initialState)) = [demoFailureC] \<and>
   taskQueue (snd (run DEFAULT_CONFIG failedResultOps initialState)) = [] \<and>
   map eventType (emitted (snd (run DEFAULT_CONFIG failedResultOps initialState))) =
     [''orchestrator-started'', ''task-queued'', ''agent-started'', ''task-failed'']"
  by code_simp

section \<open>The reported phase\<close>

lemma map_fst_mapSet:
  "map fst (mapSet k v es) = (if k \<in> fst ` set es then map fst es else map fst es @ [k])"
  by (induction es) auto

lemma map_of_mapSet: "map_of (mapSet k v es) = (map_of es)(k \<mapsto> v)"
  by (induction es) (auto simp: fun_eq_iff)

lemma phaseCounts_snoc: "phaseCounts (ps @ [p]) = countPhase (phaseCounts ps) p"
  by (simp add: phaseCounts_def)

lemma phaseCounts_props:
  "map_of (phaseCounts ps) p = (if p \<in> set ps then Some (count_list ps p) else None) \<and>
   distinct (map fst (phaseCounts ps)) \<and>
   set (map fst (phaseCounts ps)) = set ps \<and>
   set (takeWhile (\<lambda>x. x \<noteq> q) (map fst (phaseCounts ps))) = set (takeWhile (\<lambda>x. x \<noteq> q) ps)"
proof (induction ps arbitrary: p q rule: rev_induct)
  case Nil
  show ?case by (simp add: phaseCounts_def)
next
  case (snoc x ps)
  let ?cs = "phaseCounts ps"
  have m: "\<And>p. map_of ?cs p = (if p \<in> set ps then Some (count_list ps p) else None)"
    and d: "distinct (map fst ?cs)"
    and s: "set (map fst ?cs) = set ps"
    and t: "\<And>q. set (takeWhile (\<lambda>x. x \<noteq> q) (map fst ?cs)) = set (takeWhile (\<lambda>x. x \<noteq> q) ps)"
    using snoc.IH by blast+
  have s': "fst ` set ?cs = set ps" using s by simp
  let ?c = "(case mapGet ?cs x of None \<Rightarrow> 0 | Some c \<Rightarrow> c) + 1"
  have c: "?c = Suc (count_list ps x)"
    using m [of x] by (simp add: mapGet_def)
  have k: "map fst (phaseCounts (ps @ [x])) =
           (if x \<in> set ps then map fst ?cs else map fst ?cs @ [x])"
    by (simp add: phaseCounts_snoc countPhase_def map_fst_mapSet s')
  have 1: "map_of (phaseCounts (ps @ [x])) p =
           (if p \<in> set (ps @ [x]) then Some (count_list (ps @ [x]) p) else None)"
    using m [of p] c by (simp add: phaseCounts_snoc countPhase_def map_of_mapSet)
  have 2: "distinct (map fst (phaseCounts (ps @ [x])))"
    using d s by (simp add: k)
  have 3: "set (map fst (phaseCounts (ps @ [x]))) = set (ps @ [x])"
    using s by (auto simp: k)
  have 4: "set (takeWhile (\<lambda>x. x \<noteq> q) (map fst (phaseCounts (ps @ [x])))) =
           set (takeWhile (\<lambda>x. x \<noteq> q) (ps @ [x]))"
  proof (cases "q \<in> set ps")
    case True
    then have "q \<in> set (map fst ?cs)" using s by simp
    then have "takeWhile (\<lambda>x. x \<noteq> q) (map fst ?cs @ [x]) = takeWhile (\<lambda>x. x \<noteq> q) (map fst ?cs)"
      by (intro takeWhile_append1 [of q]) auto
    moreover have "takeWhile (\<lambda>x. x \<noteq> q) (ps @ [x]) = takeWhile (\<lambda>x. x \<noteq> q) ps"
      using True by (intro takeWhile_append1 [of q]) auto
    ultimately show ?thesis using t [of q] by (simp add: k)
  next
    case False
    then have f: "\<forall>y \<in> set (map fst ?cs). y \<noteq> q" using s by auto
    have a: "takeWhile (\<lambda>x. x \<noteq> q) (map fst ?cs @ [x]) = map fst ?cs @ takeWhile (\<lambda>x. x \<noteq> q) [x]"
      using f by (intro takeWhile_append2) auto
    have b: "takeWhile (\<lambda>x. x \<noteq> q) (ps @ [x]) = ps @ takeWhile (\<lambda>x. x \<noteq> q) [x]"
      using False by (intro takeWhile_append2) auto
    have e: "takeWhile (\<lambda>x. x \<noteq> q) (map fst ?cs) = map fst ?cs"
      using f by (intro takeWhile_eq_all_conv [THEN iffD2]) auto
    show ?thesis
    proof (cases "x \<in> set ps")
      case True
      then show ?thesis using s by (auto simp: k e b)
    next
      case False
      then show ?thesis using s by (simp add: k a b)
    qed
  qed
  show ?case using 1 2 3 4 by blast
qed

lemma sort_key_head:
  assumes "sort_key f xs = e # es"
  shows "e \<in> set xs" and "\<forall>y \<in> set xs. f e \<le> f y"
    and "filter (\<lambda>y. f y = f e) xs = e # filter (\<lambda>y. f y = f e) es"
proof -
  have "set (sort_key f xs) = set xs" by simp
  then have s: "set xs = insert e (set es)" using assms by simp
  then show "e \<in> set xs" by simp
  have "sorted (map f (sort_key f xs))" by (rule sorted_sort_key)
  then have "\<forall>y \<in> set es. f e \<le> f y" using assms by simp
  then show "\<forall>y \<in> set xs. f e \<le> f y" using s by auto
  have "filter (\<lambda>y. f y = f e) (sort_key f xs) = filter (\<lambda>y. f y = f e) xs"
    by (rule sort_key_stable)
  then show "filter (\<lambda>y. f y = f e) xs = e # filter (\<lambda>y. f y = f e) es"
    using assms by simp
qed

lemma first_with_key:
  assumes "filter P xs = e # es" and "y \<in> set (takeWhile (\<lambda>z. fst z \<noteq> fst e) xs)"
  shows "\<not> P y"
proof
  assume py: "P y"
  let ?t = "takeWhile (\<lambda>z. fst z \<noteq> fst e) xs"
  let ?d = "dropWhile (\<lambda>z. fst z \<noteq> fst e) xs"
  have "filter P xs = filter P ?t @ filter P ?d"
    by (metis filter_append takeWhile_dropWhile_id)
  moreover have "y \<in> set (filter P ?t)" using assms(2) py by simp
  then obtain z zs where z: "filter P ?t = z # zs" by (cases "filter P ?t") auto
  ultimately have "e = z" using assms(1) by simp
  then have "e \<in> set (filter P ?t)" using z by simp
  then have "e \<in> set ?t" by simp
  then have "fst e \<noteq> fst e" by (rule set_takeWhileD [THEN conjunct2])
  then show False by simp
qed

text \<open>
  C9, as amended. With no slot in flight the reported phase is idle. Otherwise it is a
  plurality phase among the in-flight slots, and a tie between equally common phases
  goes to the phase that occurs first among the slots in their insertion order: no
  other phase with the same count occurs before it.
\<close>

theorem current_phase_plurality:
  "(activeAgents st = [] \<longrightarrow> getCurrentPhase st = Inr Idle) \<and>
   (activeAgents st \<noteq> [] \<longrightarrow>
      (\<exists>p. getCurrentPhase st = Inr p \<and> p \<in> set (slotPhases st) \<and>
           (\<forall>q. count_list (slotPhases st) q \<le> count_list (slotPhases st) p) \<and>
           (\<forall>q. q \<noteq> p \<and> count_list (slotPhases st) q = count_list (slotPhases st) p \<longrightarrow>
                q \<notin> set (takeWhile (\<lambda>x. x \<noteq> p) (slotPhases st)))))"
proof (intro conjI impI)
  assume "activeAgents st = []"
  then show "getCurrentPhase st = Inr Idle" by (simp add: getCurrentPhase_def)
next
  assume ne: "activeAgents st \<noteq> []"
  let ?ps = "slotPhases st"
  let ?cs = "phaseCounts ?ps"
  let ?f = "\<lambda>e :: RARVPhase \<times> nat. - int (snd e)"
  have psne: "?ps \<noteq> []" using ne by (simp add: slotPhases_def)
  note pc = phaseCounts_props [of ?ps]
  have csne: "?cs \<noteq> []" using pc psne by (metis list.map_disc_iff set_empty)
  then have "sort_key ?f ?cs \<noteq> []" by (metis length_sort length_0_conv)
  then obtain e es where so: "sort_key ?f ?cs = e # es" by (cases "sort_key ?f ?cs") auto
  note h = sort_key_head [OF so]
  have entry: "snd y = count_list ?ps (fst y) \<and> fst y \<in> set ?ps" if "y \<in> set ?cs" for y
  proof -
    have "map_of ?cs (fst y) = Some (snd y)"
      using that pc by (metis map_of_eq_Some_iff prod.collapse)
    then show ?thesis using pc [of "fst y"] by (auto split: if_splits)
  qed
  have res: "getCurrentPhase st = Inr (fst e)"
    using ne so by (simp add: getCurrentPhase_def)
  have mem: "fst e \<in> set ?ps" using entry h(1) by blast
  have maxi: "count_list ?ps q \<le> count_list ?ps (fst e)" for q
  proof (cases "q \<in> set ?ps")
    case False
    then show ?thesis by (simp add: count_list_0_iff)
  next
    case True
    then have "map_of ?cs q = Some (count_list ?ps q)" using pc [of q] by simp
    then have "(q, count_list ?ps q) \<in> set ?cs" by (rule map_of_SomeD)
    then have "?f e \<le> ?f (q, count_list ?ps q)" using h(2) by blast
    then show ?thesis using entry [OF h(1)] by simp
  qed
  have tie: "q \<notin> set (takeWhile (\<lambda>x. x \<noteq> fst e) ?ps)"
    if q: "q \<noteq> fst e \<and> count_list ?ps q = count_list ?ps (fst e)" for q
  proof
    assume "q \<in> set (takeWhile (\<lambda>x. x \<noteq> fst e) ?ps)"
    then have "q \<in> set (takeWhile (\<lambda>x. x \<noteq> fst e) (map fst ?cs))"
      using pc by blast
    then have "q \<in> set (map fst (takeWhile (\<lambda>z. fst z \<noteq> fst e) ?cs))"
      by (simp add: takeWhile_map comp_def)
    then obtain y where y: "y \<in> set (takeWhile (\<lambda>z. fst z \<noteq> fst e) ?cs)" "fst y = q"
      by auto
    have "y \<in> set ?cs" using y(1) by (rule set_takeWhileD [THEN conjunct1])
    then have "snd y = count_list ?ps q" using entry y(2) by blast
    then have "?f y = ?f e" using q entry [OF h(1)] by simp
    moreover have "\<not> (?f y = ?f e)" using first_with_key [OF h(3) y(1)] .
    ultimately show False by blast
  qed
  show "\<exists>p. getCurrentPhase st = Inr p \<and> p \<in> set ?ps \<and>
           (\<forall>q. count_list ?ps q \<le> count_list ?ps p) \<and>
           (\<forall>q. q \<noteq> p \<and> count_list ?ps q = count_list ?ps p \<longrightarrow>
                q \<notin> set (takeWhile (\<lambda>x. x \<noteq> p) ?ps))"
    using res mem maxi tie by blast
qed

theorem current_phase_plurality_witness:
  "activeAgents initialState = [] \<and> getCurrentPhase initialState = Inr Idle \<and>
   activeAgents (snd (run DEFAULT_CONFIG verifyFirstOps initialState)) \<noteq> [] \<and>
   (\<exists>p. getCurrentPhase (snd (run DEFAULT_CONFIG verifyFirstOps initialState)) = Inr p \<and>
        p \<in> set (slotPhases (snd (run DEFAULT_CONFIG verifyFirstOps initialState))))"
proof -
  let ?s = "snd (run DEFAULT_CONFIG verifyFirstOps initialState)"
  have i: "activeAgents initialState = []" by code_simp
  have n: "activeAgents ?s \<noteq> []" by code_simp
  have "getCurrentPhase initialState = Inr Idle"
    using current_phase_plurality [of initialState] i by blast
  moreover have "\<exists>p. getCurrentPhase ?s = Inr p \<and> p \<in> set (slotPhases ?s)"
    using current_phase_plurality [of ?s] n by blast
  ultimately show ?thesis using i n by blast
qed

text \<open>
  C9 as stated fails: two slots, one in the verify phase and one in the reason phase,
  are a tie, and the reported phase is the phase of the slot that was admitted first,
  verify in one run and reason in the other. No fixed ordering of the phases gives both
  answers.
\<close>

theorem current_phase_counterexample:
  "slotPhases (snd (run DEFAULT_CONFIG verifyFirstOps initialState)) = [Verify, Reason] \<and>
   getCurrentPhase (snd (run DEFAULT_CONFIG verifyFirstOps initialState)) = Inr Verify \<and>
   slotPhases (snd (run DEFAULT_CONFIG verifySecondOps initialState)) = [Reason, Verify] \<and>
   getCurrentPhase (snd (run DEFAULT_CONFIG verifySecondOps initialState)) = Inr Reason"
  by code_simp

section \<open>Admission order\<close>



lemma set_spliceOne: "set (spliceOne i xs) \<subseteq> set xs"
  by (auto simp: spliceOne_def dest: in_set_takeD in_set_dropD)










section \<open>Repeated failure of a single task: lemmas\<close>

lemma admitLoop_stop: "\<not> canAdmit cfg st \<Longrightarrow> admitLoop cfg now st = st"
  by (subst admitLoop.simps) simp

lemma admitLoop_step:
  "canAdmit cfg st \<Longrightarrow> admitLoop cfg now st = admitLoop cfg now (admitNext now st)"
  by (subst admitLoop.simps) simp

lemma processQueue_empty:
  assumes "taskQueue st = []"
  shows "processQueue cfg now st = st"
proof -
  have u: "st\<lparr>taskQueue := []\<rparr> = st" using assms by (cases st) simp
  have "boostAgedTasks cfg now st = st"
    using assms u by (simp add: boostAgedTasks_def sortQueue_def)
  moreover have "\<not> canAdmit cfg st" using assms by (simp add: canAdmit_def)
  ultimately show ?thesis by (simp add: processQueue_def admitLoop_stop)
qed

lemma processQueue_single:
  assumes "isRunning st" "\<not> isPaused st" "taskQueue st = [item]" "activeAgents st = []"
    "1 \<le> maxConcurrent cfg"
  shows "processQueue cfg now st =
           executeTask now (if priorityBoostOnAge cfg then boostItem cfg now item else item)
             (st\<lparr>taskQueue := []\<rparr>)"
proof -
  let ?i = "if priorityBoostOnAge cfg then boostItem cfg now item else item"
  let ?s = "if priorityBoostOnAge cfg then boostAgedTasks cfg now st else st"
  have q: "taskQueue ?s = [?i]" using assms(3) by simp
  have a: "activeAgents ?s = []" using assms(4) by simp
  have c: "canAdmit cfg ?s" using q a assms(5) by (simp add: canAdmit_def)
  have u: "?s\<lparr>taskQueue := []\<rparr> = st\<lparr>taskQueue := []\<rparr>"
    by (simp add: boostAgedTasks_def sortQueue_def)
  have n: "admitNext now ?s = executeTask now ?i (st\<lparr>taskQueue := []\<rparr>)"
    using q u by (simp add: admitNext_def)
  have "\<not> canAdmit cfg (executeTask now ?i (st\<lparr>taskQueue := []\<rparr>))"
    by (simp add: canAdmit_def)
  then have "admitLoop cfg now ?s = executeTask now ?i (st\<lparr>taskQueue := []\<rparr>)"
    using c n by (simp add: admitLoop_step admitLoop_stop)
  then show ?thesis using assms(1,2) by (simp add: processQueue_def)
qed

lemma attempts_boostItem [simp]: "attempts (boostItem cfg now item) = attempts item"
  by (simp add: boostItem_def Let_def)

lemma countEvents_emitEvent [simp]:
  "countEvents ty (emitEvent ty' d st) = countEvents ty st + (if ty' = ty then 1 else 0)"
  by (simp add: countEvents_def)

lemma countEvents_executeTask [simp]:
  "countEvents ty (executeTask now item st) =
     countEvents ty st + (if ''agent-started'' = ty then 1 else 0)"
  by (simp add: executeTask_def Let_def) (simp add: countEvents_def)

lemma countEvents_updates [simp]:
  "countEvents ty (st\<lparr>taskQueue := q\<rparr>) = countEvents ty st"
  "countEvents ty (st\<lparr>executions := es\<rparr>) = countEvents ty st"
  "countEvents ty (st\<lparr>activeAgents := ag\<rparr>) = countEvents ty st"
  "countEvents ty (st\<lparr>completedTasks := cs\<rparr>) = countEvents ty st"
  "countEvents ty (st\<lparr>failedTasks := fs\<rparr>) = countEvents ty st"
  "countEvents ty (st\<lparr>isRunning := b\<rparr>) = countEvents ty st"
  "countEvents ty (st\<lparr>isPaused := b\<rparr>) = countEvents ty st"
  "countEvents ty (st\<lparr>startTime := n\<rparr>) = countEvents ty st"
  "countEvents ty (st\<lparr>totalCost := x\<rparr>) = countEvents ty st"
  "countEvents ty (sortQueue st) = countEvents ty st"
  by (simp_all add: countEvents_def)

lemma countEvents_emitted_cong: "emitted s = emitted s' \<Longrightarrow> countEvents ty s = countEvents ty s'"
  by (simp add: countEvents_def)

lemma first_attempt:
  assumes "1 \<le> maxConcurrent cfg" "1 \<le> queueSize cfg"
  shows "attemptInFlight t 0 (snd (run cfg [Start t0, Dispatch t t0] initialState))"
proof -
  let ?s0 = "emitEvent ''orchestrator-started'' []
               (initialState\<lparr>isRunning := True, isPaused := False, startTime := t0\<rparr>)"
  have s: "start cfg t0 initialState = ?s0"
    by (simp add: start_def initialState_def processQueue_empty)
  let ?item = "\<lparr>task = t, priority = Finite (calculatePriority t), addedAt = t0,
                 attempts = 0, lastAttemptAt = None, error = None\<rparr>"
  let ?s1 = "emitEvent ''task-queued''
               [(''taskId'', VString (task_id t)), (''priority'', VScore (Finite (calculatePriority t)))]
               (sortQueue (?s0\<lparr>taskQueue := taskQueue ?s0 @ [?item]\<rparr>))"
  have f: "isRunning ?s1" "\<not> isPaused ?s1" "taskQueue ?s1 = [?item]" "activeAgents ?s1 = []"
    by (simp_all add: initialState_def)
  let ?i = "if priorityBoostOnAge cfg then boostItem cfg t0 ?item else ?item"
  have d: "dispatch cfg t0 t ?s0 =
             Inr (task_id t, executeTask t0 ?i (?s1\<lparr>taskQueue := []\<rparr>))"
    using assms(2) f(1,2) processQueue_single [OF f assms(1), of t0]
    by (simp add: dispatch_def Let_def initialState_def)
  have r: "snd (run cfg [Start t0, Dispatch t t0] initialState) =
             executeTask t0 ?i (?s1\<lparr>taskQueue := []\<rparr>)"
    by (simp add: s d)
  have c: "countEvents ty (?s1\<lparr>taskQueue := []\<rparr>) = countEvents ty ?s1" for ty
    by (rule countEvents_emitted_cong) simp
  show ?thesis
    unfolding r
    by (simp add: attemptInFlight_def initialState_def)
       (simp add: countEvents_def initialState_def)
qed

lemma one_failed_attempt:
  assumes a: "attemptInFlight t j st"
    and m: "1 \<le> maxConcurrent cfg"
    and r: "runExecution cfg outcome = Inl msg"
  shows "(retryFailedTasks cfg \<and> int (Suc j) < maxRetries cfg \<longrightarrow>
            attemptInFlight t (Suc j) (snd (run cfg [Settle 0 outcome now, Finally 0 now] st))) \<and>
         (\<not> (retryFailedTasks cfg \<and> int (Suc j) < maxRetries cfg) \<longrightarrow>
            (let st' = snd (run cfg [Settle 0 outcome now, Finally 0 now] st) in
             failedTasks st' =
               [failureResult now msg (recordFailure now msg (execItem (executions st ! 0)))] \<and>
             completedTasks st' = [] \<and> taskQueue st' = [] \<and> executions st' = [] \<and>
             activeAgents st' = [] \<and>
             countEvents ''task-retry'' st' = j \<and>
             countEvents ''agent-started'' st' = Suc j \<and>
             countEvents ''task-failed'' st' = 1))"
proof -
  obtain ex where ex: "executions st = [ex]"
    using a by (cases "executions st") (auto simp: attemptInFlight_def)
  obtain k info where ag: "activeAgents st = [(k, info)]"
    using a by (cases "activeAgents st") (auto simp: attemptInFlight_def)
  have k: "k = execId ex" using a ex ag by (simp add: attemptInFlight_def)
  have p: "isRunning st" "\<not> isPaused st" "taskQueue st = []" "completedTasks st = []"
    "failedTasks st = []" "\<not> settled ex" "task (execItem ex) = t" "attempts (execItem ex) = j"
    "countEvents ''task-retry'' st = j" "countEvents ''agent-started'' st = Suc j"
    "countEvents ''task-failed'' st = 0"
    using a ex by (simp_all add: attemptInFlight_def)
  let ?item = "recordFailure now msg (execItem ex)"
  let ?h = "handleTaskError cfg now (execId ex) (execItem ex) msg st"
  let ?s1 = "?h\<lparr>executions := [ex\<lparr>settled := True\<rparr>]\<rparr>"
  have s1: "onSettled cfg now 0 outcome st = ?s1"
    using ex p(6) r by (simp add: onSettled_def Let_def)
  let ?s2 = "?s1\<lparr>executions := [], activeAgents := []\<rparr>"
  have s2: "onFinally cfg now 0 ?s1 = processQueue cfg now ?s2"
    using ag k by (simp add: onFinally_def Let_def spliceOne_def mapDelete_def)
  have run: "snd (run cfg [Settle 0 outcome now, Finally 0 now] st) = processQueue cfg now ?s2"
    by (simp add: s1 s2)
  have ce: "countEvents ty ?s2 = countEvents ty ?h" for ty
    by (rule countEvents_emitted_cong) simp
  show ?thesis
  proof (cases "retryFailedTasks cfg \<and> int (Suc j) < maxRetries cfg")
    case True
    have f: "isRunning ?s2" "\<not> isPaused ?s2" "taskQueue ?s2 = [?item]" "activeAgents ?s2 = []"
      using True p by simp_all
    let ?i = "if priorityBoostOnAge cfg then boostItem cfg now ?item else ?item"
    have pq: "processQueue cfg now ?s2 = executeTask now ?i (?s2\<lparr>taskQueue := []\<rparr>)"
      by (rule processQueue_single [OF f m])
    have cq: "countEvents ty (?s2\<lparr>taskQueue := []\<rparr>) = countEvents ty ?h" for ty
      by (rule countEvents_emitted_cong) simp
    have ch: "countEvents ty ?h = countEvents ty st + (if ''task-retry'' = ty then 1 else 0)" for ty
      using True p(8) by (auto simp: handleTaskError_def Let_def)
    have "attemptInFlight t (Suc j) (executeTask now ?i (?s2\<lparr>taskQueue := []\<rparr>))"
      using True p by (simp add: attemptInFlight_def ch)
    then have "attemptInFlight t (Suc j) (snd (run cfg [Settle 0 outcome now, Finally 0 now] st))"
      by (simp only: run pq)
    then show ?thesis using True by blast
  next
    case False
    have q: "taskQueue ?s2 = []" using False p by auto
    have pq: "processQueue cfg now ?s2 = ?s2" using q by (rule processQueue_empty)
    have ch: "countEvents ty ?h = countEvents ty st + (if ''task-failed'' = ty then 1 else 0)" for ty
      using False p(8) by (auto simp: handleTaskError_def Let_def)
    have "failedTasks ?s2 = [failureResult now msg ?item]"
      using False p by auto
    moreover have "completedTasks ?s2 = []" using p by simp
    ultimately have "let st' = snd (run cfg [Settle 0 outcome now, Finally 0 now] st) in
             failedTasks st' =
               [failureResult now msg (recordFailure now msg (execItem (executions st ! 0)))] \<and>
             completedTasks st' = [] \<and> taskQueue st' = [] \<and> executions st' = [] \<and>
             activeAgents st' = [] \<and>
             countEvents ''task-retry'' st' = j \<and>
             countEvents ''agent-started'' st' = Suc j \<and>
             countEvents ''task-failed'' st' = 1"
      using q p ex unfolding run pq by (simp add: Let_def ch)
    then show ?thesis using False by blast
  qed
qed

lemma attemptOps_simps [simp]:
  "attemptOps [] = []"
  "attemptOps ((outcome, now) # xs) = Settle 0 outcome now # Finally 0 now # attemptOps xs"
  "attemptOps (xs @ ys) = attemptOps xs @ attemptOps ys"
  by (simp_all add: attemptOps_def)

lemma rejection_message:
  "isRejection outcome \<Longrightarrow> \<exists>msg. runExecution cfg outcome = Inl msg"
  by (cases outcome) (simp_all add: runExecution_def)

lemma snd_run_two:
  "snd (run cfg (a # b # ops) st) = snd (run cfg ops (snd (run cfg [a, b] st)))"
  using snd_run_append [of cfg "[a, b]" ops st] by simp

lemma retry_granted:
  "Suc j < attemptsAllowed cfg \<Longrightarrow> retryFailedTasks cfg \<and> int (Suc j) < maxRetries cfg"
  by (auto simp: attemptsAllowed_def split: if_splits)

lemma retry_exhausted:
  "Suc j = attemptsAllowed cfg \<Longrightarrow> \<not> (retryFailedTasks cfg \<and> int (Suc j) < maxRetries cfg)"
  by (auto simp: attemptsAllowed_def split: if_splits)

lemma failing_attempts:
  assumes m: "1 \<le> maxConcurrent cfg"
  shows "attemptInFlight t j st \<Longrightarrow> list_all (\<lambda>x. isRejection (fst x)) xs \<Longrightarrow>
         j + length xs < attemptsAllowed cfg \<Longrightarrow>
         attemptInFlight t (j + length xs) (snd (run cfg (attemptOps xs) st))"
proof (induction xs arbitrary: j st)
  case Nil
  then show ?case by simp
next
  case (Cons x xs)
  obtain outcome now where x: "x = (outcome, now)" by (cases x)
  have "isRejection outcome" using Cons.prems(2) x by simp
  then obtain msg where msg: "runExecution cfg outcome = Inl msg"
    using rejection_message by blast
  have "Suc j < attemptsAllowed cfg" using Cons.prems(3) by simp
  then have g: "retryFailedTasks cfg \<and> int (Suc j) < maxRetries cfg" by (rule retry_granted)
  let ?s = "snd (run cfg [Settle 0 outcome now, Finally 0 now] st)"
  have a: "attemptInFlight t (Suc j) ?s"
    using one_failed_attempt [OF Cons.prems(1) m msg, of now] g by blast
  have h: "attemptInFlight t (Suc j + length xs) (snd (run cfg (attemptOps xs) ?s))"
    using Cons.prems(2,3) by (intro Cons.IH [OF a]) simp_all
  have e: "j + length (x # xs) = Suc j + length xs" by simp
  have r: "snd (run cfg (attemptOps (x # xs)) st) = snd (run cfg (attemptOps xs) ?s)"
    using snd_run_two [of cfg "Settle 0 outcome now" "Finally 0 now" "attemptOps xs" st]
    by (simp only: x attemptOps_simps)
  show ?case using h by (simp only: e r)
qed

lemma single_task_prefix:
  assumes "1 \<le> maxConcurrent cfg" "1 \<le> queueSize cfg"
    and "list_all (\<lambda>x. isRejection (fst x)) ys"
    and "length ys < attemptsAllowed cfg"
  shows "attemptInFlight t (length ys) (snd (run cfg (singleTaskOps t t0 ys) initialState))"
proof -
  have h: "attemptInFlight t (0 + length ys)
          (snd (run cfg (attemptOps ys) (snd (run cfg [Start t0, Dispatch t t0] initialState))))"
    using assms by (intro failing_attempts first_attempt) simp_all
  have r: "snd (run cfg (singleTaskOps t t0 ys) initialState) =
           snd (run cfg (attemptOps ys) (snd (run cfg [Start t0, Dispatch t t0] initialState)))"
    using snd_run_two [of cfg "Start t0" "Dispatch t t0" "attemptOps ys" initialState]
    by (simp only: singleTaskOps_def)
  show ?thesis using h by (simp only: r add_0)
qed

lemma single_task_fails:
  assumes m: "1 \<le> maxConcurrent cfg" and q: "1 \<le> queueSize cfg"
    and rj: "list_all (\<lambda>x. isRejection (fst x)) ys"
    and n: "Suc (length ys) = attemptsAllowed cfg"
    and msg: "runExecution cfg outcome = Inl msg"
  shows "\<exists>item. task item = t \<and> attempts item = attemptsAllowed cfg \<and>
           failedTasks (snd (run cfg (singleTaskOps t t0 (ys @ [(outcome, now)])) initialState)) =
             [failureResult now msg item] \<and>
           completedTasks (snd (run cfg (singleTaskOps t t0 (ys @ [(outcome, now)])) initialState)) = [] \<and>
           taskQueue (snd (run cfg (singleTaskOps t t0 (ys @ [(outcome, now)])) initialState)) = [] \<and>
           executions (snd (run cfg (singleTaskOps t t0 (ys @ [(outcome, now)])) initialState)) = [] \<and>
           countEvents ''task-retry'' (snd (run cfg (singleTaskOps t t0 (ys @ [(outcome, now)])) initialState)) =
             length ys \<and>
           countEvents ''agent-started'' (snd (run cfg (singleTaskOps t t0 (ys @ [(outcome, now)])) initialState)) =
             Suc (length ys) \<and>
           countEvents ''task-failed'' (snd (run cfg (singleTaskOps t t0 (ys @ [(outcome, now)])) initialState)) = 1"
proof -
  let ?s = "snd (run cfg (singleTaskOps t t0 ys) initialState)"
  have a: "attemptInFlight t (length ys) ?s"
    using m q rj n by (intro single_task_prefix) simp_all
  have x: "\<not> (retryFailedTasks cfg \<and> int (Suc (length ys)) < maxRetries cfg)"
    using n by (rule retry_exhausted)
  have r: "snd (run cfg (singleTaskOps t t0 (ys @ [(outcome, now)])) initialState) =
           snd (run cfg [Settle 0 outcome now, Finally 0 now] ?s)"
  proof -
    have "singleTaskOps t t0 (ys @ [(outcome, now)]) =
          singleTaskOps t t0 ys @ [Settle 0 outcome now, Finally 0 now]"
      by (simp add: singleTaskOps_def)
    then show ?thesis by (simp only: snd_run_append)
  qed
  let ?item = "recordFailure now msg (execItem (executions ?s ! 0))"
  have i: "task ?item = t" "attempts ?item = attemptsAllowed cfg"
    using a n by (simp_all add: attemptInFlight_def)
  from one_failed_attempt [OF a m msg, of now] x
  have "let st' = snd (run cfg [Settle 0 outcome now, Finally 0 now] ?s) in
             failedTasks st' = [failureResult now msg ?item] \<and>
             completedTasks st' = [] \<and> taskQueue st' = [] \<and> executions st' = [] \<and>
             activeAgents st' = [] \<and>
             countEvents ''task-retry'' st' = length ys \<and>
             countEvents ''agent-started'' st' = Suc (length ys) \<and>
             countEvents ''task-failed'' st' = 1"
    by blast
  then show ?thesis using i unfolding r Let_def by blast
qed

section \<open>Timeouts and the retry bound\<close>

text \<open>
  C4. When the timer settles the race of \<open>runExecution\<close> first, the execution promise
  rejects with the timeout error, and the attempt is handled exactly as a rejection by
  an execution error with that message, hence under the same retry policy. A task whose
  every attempt times out, as many attempts as the configuration grants, ends with
  exactly one result in the failed list; its error has the code \<open>EXECUTION_ERROR\<close>,
  one of the two codes \<open>TIMEOUT\<close> and \<open>EXECUTION_ERROR\<close>, and the timeout message.
\<close>

theorem timeout_is_failure:
  assumes "1 \<le> maxConcurrent cfg"
    and "1 \<le> queueSize cfg"
    and "length nows = attemptsAllowed cfg"
  shows "runExecution cfg TimedOut = Inl (timeoutMessage cfg) \<and>
         onSettled cfg now k TimedOut st = onSettled cfg now k (Rejected (timeoutMessage cfg)) st \<and>
         (\<exists>r. failedTasks (snd (run cfg (singleTaskOps t t0 (map (Pair TimedOut) nows)) initialState)) = [r] \<and>
              taskId r = task_id t \<and> \<not> success r \<and> retryCount r = attemptsAllowed cfg \<and>
              map code (errors r) = [''EXECUTION_ERROR''] \<and>
              map message (errors r) = [timeoutMessage cfg] \<and>
              list_all (\<lambda>e. code e = ''TIMEOUT'' \<or> code e = ''EXECUTION_ERROR'') (errors r)) \<and>
         completedTasks (snd (run cfg (singleTaskOps t t0 (map (Pair TimedOut) nows)) initialState)) = [] \<and>
         taskQueue (snd (run cfg (singleTaskOps t t0 (map (Pair TimedOut) nows)) initialState)) = [] \<and>
         executions (snd (run cfg (singleTaskOps t t0 (map (Pair TimedOut) nows)) initialState)) = []"
proof -
  let ?xs = "map (Pair TimedOut) nows"
  have r: "runExecution cfg TimedOut = Inl (timeoutMessage cfg)"
    by (simp add: runExecution_def timeoutMessage_def)
  have s: "onSettled cfg now k TimedOut st = onSettled cfg now k (Rejected (timeoutMessage cfg)) st"
    by (simp add: onSettled_def runExecution_def timeoutMessage_def)
  have pos: "0 < attemptsAllowed cfg" by (simp add: attemptsAllowed_def)
  then have ne: "nows \<noteq> []" using assms(3) by auto
  have sp: "?xs = map (Pair TimedOut) (butlast nows) @ [(TimedOut, last nows)]"
    using ne by (metis append_butlast_last_id list.simps(8,9) map_append)
  have rj: "list_all (\<lambda>x. isRejection (fst x)) (map (Pair TimedOut) (butlast nows))"
    by (simp add: list_all_iff)
  have n: "Suc (length (map (Pair TimedOut) (butlast nows))) = attemptsAllowed cfg"
    using pos assms(3) by simp
  from single_task_fails [OF assms(1,2) rj n r, of t t0 "last nows"]
  obtain item where i: "task item = t" "attempts item = attemptsAllowed cfg"
    "failedTasks (snd (run cfg (singleTaskOps t t0 ?xs) initialState)) =
       [failureResult (last nows) (timeoutMessage cfg) item]"
    "completedTasks (snd (run cfg (singleTaskOps t t0 ?xs) initialState)) = []"
    "taskQueue (snd (run cfg (singleTaskOps t t0 ?xs) initialState)) = []"
    "executions (snd (run cfg (singleTaskOps t t0 ?xs) initialState)) = []"
    unfolding sp [symmetric] by blast
  have "\<exists>r. failedTasks (snd (run cfg (singleTaskOps t t0 ?xs) initialState)) = [r] \<and>
              taskId r = task_id t \<and> \<not> success r \<and> retryCount r = attemptsAllowed cfg \<and>
              map code (errors r) = [''EXECUTION_ERROR''] \<and>
              map message (errors r) = [timeoutMessage cfg] \<and>
              list_all (\<lambda>e. code e = ''TIMEOUT'' \<or> code e = ''EXECUTION_ERROR'') (errors r)"
    using i(1,2) by (intro exI [of _ "failureResult (last nows) (timeoutMessage cfg) item"])
                    (simp add: i(3))
  then show ?thesis using r s i(4,5,6) by blast
qed

theorem timeout_is_failure_witness:
  "1 \<le> maxConcurrent DEFAULT_CONFIG \<and> 1 \<le> queueSize DEFAULT_CONFIG \<and>
   length threeTimeouts = attemptsAllowed DEFAULT_CONFIG \<and>
   (\<exists>r. failedTasks (snd (run DEFAULT_CONFIG
                             (singleTaskOps demoTaskC 0 (map (Pair TimedOut) threeTimeouts))
                             initialState)) = [r] \<and>
        retryCount r = 3 \<and> map code (errors r) = [''EXECUTION_ERROR''] \<and>
        map message (errors r) = [''Task timeout after 300000ms''])"
proof -
  have a: "1 \<le> maxConcurrent DEFAULT_CONFIG" by code_simp
  have b: "1 \<le> queueSize DEFAULT_CONFIG" by code_simp
  have c: "length threeTimeouts = attemptsAllowed DEFAULT_CONFIG" by code_simp
  have d: "attemptsAllowed DEFAULT_CONFIG = 3" by code_simp
  have e: "timeoutMessage DEFAULT_CONFIG = ''Task timeout after 300000ms''" by code_simp
  note t = timeout_is_failure [OF a b c, of 0 0 initialState demoTaskC 0]
  from t [THEN conjunct2, THEN conjunct2, THEN conjunct1]
  obtain r where r:
    "failedTasks (snd (run DEFAULT_CONFIG
                         (singleTaskOps demoTaskC 0 (map (Pair TimedOut) threeTimeouts))
                         initialState)) = [r]"
    "retryCount r = attemptsAllowed DEFAULT_CONFIG"
    "map code (errors r) = [''EXECUTION_ERROR'']"
    "map message (errors r) = [timeoutMessage DEFAULT_CONFIG]"
    by (elim exE conjE) (rule that)
  have "\<exists>r. failedTasks (snd (run DEFAULT_CONFIG
                             (singleTaskOps demoTaskC 0 (map (Pair TimedOut) threeTimeouts))
                             initialState)) = [r] \<and>
        retryCount r = 3 \<and> map code (errors r) = [''EXECUTION_ERROR''] \<and>
        map message (errors r) = [''Task timeout after 300000ms'']"
    using r unfolding d e by (intro exI [of _ r] conjI)
  then show ?thesis using a b c by (intro conjI)
qed

text \<open>
  C7, as amended. With retrying enabled and \<open>maxRetries\<close> at least one, a task whose
  every attempt is rejected, by a thrown error or by the timeout, is attempted
  \<open>maxRetries\<close> times in all, that is retried \<open>maxRetries - 1\<close> times; then exactly
  one failure result is appended to the failed list, with \<open>retryCount\<close> equal to
  \<open>maxRetries\<close>, \<open>success\<close> false and a non-empty error list. Before the last attempt
  has failed the failed list is empty.
\<close>

theorem retry_bound:
  assumes "retryFailedTasks cfg"
    and "1 \<le> maxRetries cfg"
    and "1 \<le> maxConcurrent cfg"
    and "1 \<le> queueSize cfg"
    and "list_all (\<lambda>x. isRejection (fst x)) xs"
    and "length xs = nat (maxRetries cfg)"
  shows "(\<exists>r. failedTasks (snd (run cfg (singleTaskOps t t0 xs) initialState)) = [r] \<and>
              taskId r = task_id t \<and> \<not> success r \<and> errors r \<noteq> [] \<and>
              retryCount r = nat (maxRetries cfg)) \<and>
         completedTasks (snd (run cfg (singleTaskOps t t0 xs) initialState)) = [] \<and>
         taskQueue (snd (run cfg (singleTaskOps t t0 xs) initialState)) = [] \<and>
         executions (snd (run cfg (singleTaskOps t t0 xs) initialState)) = [] \<and>
         countEvents ''agent-started'' (snd (run cfg (singleTaskOps t t0 xs) initialState)) =
           nat (maxRetries cfg) \<and>
         countEvents ''task-retry'' (snd (run cfg (singleTaskOps t t0 xs) initialState)) =
           nat (maxRetries cfg) - 1 \<and>
         countEvents ''task-failed'' (snd (run cfg (singleTaskOps t t0 xs) initialState)) = 1 \<and>
         (\<forall>m < length xs.
            failedTasks (snd (run cfg (singleTaskOps t t0 (take m xs)) initialState)) = [])"
proof -
  have al: "attemptsAllowed cfg = nat (maxRetries cfg)"
    using assms(1,2) by (simp add: attemptsAllowed_def)
  have ne: "xs \<noteq> []" using assms(2,6) by auto
  obtain outcome now where l: "last xs = (outcome, now)" by (cases "last xs")
  have sp: "xs = butlast xs @ [(outcome, now)]"
    using ne l by (metis append_butlast_last_id)
  have al5: "\<forall>x \<in> set xs. isRejection (fst x)"
    using assms(5) by (simp add: list_all_iff)
  have "(outcome, now) \<in> set xs" using ne l by (metis last_in_set)
  then have "isRejection outcome" using al5 by force
  then obtain msg where msg: "runExecution cfg outcome = Inl msg"
    using rejection_message by blast
  have rj: "list_all (\<lambda>x. isRejection (fst x)) (butlast xs)"
    using al5 by (auto simp: list_all_iff dest: in_set_butlastD)
  have n: "Suc (length (butlast xs)) = attemptsAllowed cfg"
    using assms(2,6) al by simp
  from single_task_fails [OF assms(3,4) rj n msg, of t t0 now]
  obtain item where i: "task item = t" "attempts item = attemptsAllowed cfg"
    "failedTasks (snd (run cfg (singleTaskOps t t0 xs) initialState)) = [failureResult now msg item]"
    "completedTasks (snd (run cfg (singleTaskOps t t0 xs) initialState)) = []"
    "taskQueue (snd (run cfg (singleTaskOps t t0 xs) initialState)) = []"
    "executions (snd (run cfg (singleTaskOps t t0 xs) initialState)) = []"
    "countEvents ''task-retry'' (snd (run cfg (singleTaskOps t t0 xs) initialState)) = length (butlast xs)"
    "countEvents ''agent-started'' (snd (run cfg (singleTaskOps t t0 xs) initialState)) = Suc (length (butlast xs))"
    "countEvents ''task-failed'' (snd (run cfg (singleTaskOps t t0 xs) initialState)) = 1"
    unfolding sp [symmetric] by blast
  have 1: "\<exists>r. failedTasks (snd (run cfg (singleTaskOps t t0 xs) initialState)) = [r] \<and>
              taskId r = task_id t \<and> \<not> success r \<and> errors r \<noteq> [] \<and>
              retryCount r = nat (maxRetries cfg)"
    using i(1,2) al by (intro exI [of _ "failureResult now msg item"]) (simp add: i(3))
  have 2: "countEvents ''agent-started'' (snd (run cfg (singleTaskOps t t0 xs) initialState)) =
           nat (maxRetries cfg)"
    using i(8) n al by simp
  have 3: "countEvents ''task-retry'' (snd (run cfg (singleTaskOps t t0 xs) initialState)) =
           nat (maxRetries cfg) - 1"
    using i(7) n al by simp
  have 4: "failedTasks (snd (run cfg (singleTaskOps t t0 (take m xs)) initialState)) = []"
    if m: "m < length xs" for m
  proof -
    have "list_all (\<lambda>x. isRejection (fst x)) (take m xs)"
      using assms(5) by (auto simp: list_all_iff dest: in_set_takeD)
    moreover have "length (take m xs) < attemptsAllowed cfg"
      using m assms(6) al by simp
    ultimately have "attemptInFlight t (length (take m xs))
                       (snd (run cfg (singleTaskOps t t0 (take m xs)) initialState))"
      using assms(3,4) by (intro single_task_prefix)
    then show ?thesis by (simp add: attemptInFlight_def)
  qed
  show ?thesis using 1 2 3 4 i(4,5,6,9) by blast
qed

theorem retry_bound_witness:
  "retryFailedTasks DEFAULT_CONFIG \<and> 1 \<le> maxRetries DEFAULT_CONFIG \<and>
   1 \<le> maxConcurrent DEFAULT_CONFIG \<and> 1 \<le> queueSize DEFAULT_CONFIG \<and>
   list_all (\<lambda>x. isRejection (fst x)) threeRejections \<and>
   length threeRejections = nat (maxRetries DEFAULT_CONFIG) \<and>
   (\<exists>r. failedTasks (snd (run DEFAULT_CONFIG (singleTaskOps demoTaskC 0 threeRejections)
                             initialState)) = [r] \<and>
        retryCount r = 3 \<and> \<not> success r \<and> errors r \<noteq> []) \<and>
   countEvents ''task-retry''
     (snd (run DEFAULT_CONFIG (singleTaskOps demoTaskC 0 threeRejections) initialState)) = 2 \<and>
   failedTasks (snd (run DEFAULT_CONFIG (singleTaskOps demoTaskC 0 (take 2 threeRejections))
                       initialState)) = []"
proof -
  have a: "retryFailedTasks DEFAULT_CONFIG" by code_simp
  have b: "1 \<le> maxRetries DEFAULT_CONFIG" by code_simp
  have c: "1 \<le> maxConcurrent DEFAULT_CONFIG" by code_simp
  have d: "1 \<le> queueSize DEFAULT_CONFIG" by code_simp
  have e: "list_all (\<lambda>x. isRejection (fst x)) threeRejections" by code_simp
  have f: "length threeRejections = nat (maxRetries DEFAULT_CONFIG)" by code_simp
  have g: "nat (maxRetries DEFAULT_CONFIG) = 3" by code_simp
  have h: "(2::nat) < length threeRejections" by code_simp
  note t = retry_bound [OF a b c d e f, of demoTaskC 0]
  have "\<exists>r. failedTasks (snd (run DEFAULT_CONFIG (singleTaskOps demoTaskC 0 threeRejections)
                             initialState)) = [r] \<and>
        retryCount r = 3 \<and> \<not> success r \<and> errors r \<noteq> []"
    using t unfolding g by blast
  moreover have "countEvents ''task-retry''
     (snd (run DEFAULT_CONFIG (singleTaskOps demoTaskC 0 threeRejections) initialState)) = 2"
    using t unfolding g by simp
  moreover have "failedTasks (snd (run DEFAULT_CONFIG
                    (singleTaskOps demoTaskC 0 (take 2 threeRejections)) initialState)) = []"
    using t h by blast
  ultimately show ?thesis using a b c d e f by blast
qed

text \<open>
  C7 as stated fails in two ways. With retrying disabled the task whose attempt is
  rejected is not retried, and its terminal result has \<open>retryCount\<close> 1 while
  \<open>maxRetries\<close> is 3. With retrying enabled, a task whose attempt resolves with an
  unsuccessful result is not retried either: the result goes to the failed list as it
  is, here with \<open>retryCount\<close> 0.
\<close>

theorem retry_bound_counterexample:
  "\<not> retryFailedTasks noRetryConfig \<and> maxRetries noRetryConfig = 3 \<and>
   map retryCount (failedTasks (snd (run noRetryConfig oneRejectionOps initialState))) = [1] \<and>
   countEvents ''agent-started'' (snd (run noRetryConfig oneRejectionOps initialState)) = 1 \<and>
   executions (snd (run noRetryConfig oneRejectionOps initialState)) = [] \<and>
   retryFailedTasks DEFAULT_CONFIG \<and> maxRetries DEFAULT_CONFIG = 3 \<and>
   \<not> success demoFailureC \<and>
   map retryCount (failedTasks (snd (run DEFAULT_CONFIG unsuccessfulOps initialState))) = [0] \<and>
   countEvents ''agent-started'' (snd (run DEFAULT_CONFIG unsuccessfulOps initialState)) = 1 \<and>
   taskQueue (snd (run DEFAULT_CONFIG unsuccessfulOps initialState)) = [] \<and>
   executions (snd (run DEFAULT_CONFIG unsuccessfulOps initialState)) = []"
  by code_simp

end
